theory Spec2Isabelle
  imports Main "HOL-Library.Word" "HOL-Library.Sublist" "HOL-Library.AList"
begin

section \<open>Values, errors and the platform\<close>

text \<open>
  The store keeps JSON values. A number is an integer here: the only numbers the
  program itself produces are the byte values of a nonce (\<^verbatim>\<open>Array.from(iv)\<close>).
\<close>

datatype json =
    JNull
  | JBool bool
  | JNum int
  | JStr string
  | JArr "json list"
  | JObj "(string \<times> json) list"

text \<open>
  Every exception of the program is a value. \<open>KeyNotInitialized\<close> is the
  \<^verbatim>\<open>Error("Encryption key has not been initialized.")\<close> of the encryption service;
  the others are the errors of the platform functions the program calls.
\<close>

datatype error =
    KeyNotInitialized
  | SyntaxError
  | TypeError
  | RangeError
  | InvalidCharacterError
  | OperationError

type_synonym bytes = "8 word list"
type_synonym cryptokey = "8 word list"

text \<open>
  The platform functions the program calls but does not define are parameters:
  \<^verbatim>\<open>JSON.parse\<close> (\<open>None\<close>: SyntaxError), \<^verbatim>\<open>JSON.stringify\<close>, \<^verbatim>\<open>btoa\<close>, \<^verbatim>\<open>atob\<close>
  (\<open>None\<close>: InvalidCharacterError), \<^verbatim>\<open>TextEncoder.encode\<close>, \<^verbatim>\<open>TextDecoder.decode\<close>,
  AES-GCM of \<^verbatim>\<open>crypto.subtle\<close> (\<open>None\<close>: the promise rejects), the coercions of a
  JSON value that is not of the expected shape (\<open>coerce_bytes\<close> for
  \<^verbatim>\<open>new Uint8Array(x)\<close>, \<open>coerce_string\<close> for \<^verbatim>\<open>atob(x)\<close>), and the two random sources
  (\<^verbatim>\<open>crypto.getRandomValues\<close> as a stream of bytes, \<^verbatim>\<open>crypto.randomUUID\<close> as a stream
  of strings). An engine accepts a call with only so many arguments:
  \<open>accepts_arguments n\<close> says whether a call with \<open>n\<close> arguments goes through; one
  that does not throws a RangeError.
\<close>

record platform =
  JSON_parse :: "string \<Rightarrow> json option"
  JSON_stringify :: "json \<Rightarrow> string"
  btoa :: "string \<Rightarrow> string"
  atob :: "string \<Rightarrow> string option"
  TextEncoder_encode :: "string \<Rightarrow> bytes"
  TextDecoder_decode :: "bytes \<Rightarrow> string"
  subtle_encrypt :: "cryptokey \<Rightarrow> bytes \<Rightarrow> bytes \<Rightarrow> bytes option"
  subtle_decrypt :: "cryptokey \<Rightarrow> bytes \<Rightarrow> bytes \<Rightarrow> bytes option"
  coerce_bytes :: "json option \<Rightarrow> bytes option"
  coerce_string :: "json option \<Rightarrow> string"
  accepts_arguments :: "nat \<Rightarrow> bool"
  random_byte :: "nat \<Rightarrow> 8 word"
  random_uuid :: "nat \<Rightarrow> string"

text \<open>
  The mutable world: \<^verbatim>\<open>localStorage\<close> as an association list in the order
  \<^verbatim>\<open>Object.keys\<close> enumerates it, and how far each random source has been read.
\<close>

record world =
  localStorage :: "(string \<times> string) list"
  rand_pos :: nat
  uuid_pos :: nat

definition getItem :: "world \<Rightarrow> string \<Rightarrow> string option" where
  "getItem w k = map_of (localStorage w) k"

text \<open>
  \<^verbatim>\<open>setItem\<close> replaces the value of a key that is present, in place, and appends a
  new key otherwise (\<open>AList.update\<close>). The order in which a user agent enumerates
  the keys is its own; the model fixes it as the order of insertion.
\<close>

definition setItem :: "string \<Rightarrow> string \<Rightarrow> world \<Rightarrow> world" where
  "setItem k v w = w\<lparr>localStorage := AList.update k v (localStorage w)\<rparr>"

definition removeItem :: "string \<Rightarrow> world \<Rightarrow> world" where
  "removeItem k w = w\<lparr>localStorage := AList.delete k (localStorage w)\<rparr>"

definition Object_keys :: "world \<Rightarrow> string list" where
  "Object_keys w = map fst (localStorage w)"

definition getRandomValues :: "platform \<Rightarrow> nat \<Rightarrow> world \<Rightarrow> bytes \<times> world" where
  "getRandomValues P n w =
     (map (random_byte P) [rand_pos w ..< rand_pos w + n], w\<lparr>rand_pos := rand_pos w + n\<rparr>)"

definition randomUUID :: "platform \<Rightarrow> world \<Rightarrow> string \<times> world" where
  "randomUUID P w = (random_uuid P (uuid_pos w), w\<lparr>uuid_pos := Suc (uuid_pos w)\<rparr>)"

section \<open>The encryption service\<close>

text \<open>
  \<^verbatim>\<open>Array.from(iv)\<close>, \<^verbatim>\<open>String.fromCharCode(...buffer)\<close> and their inverses. The
  spread passes every byte as an argument; \<^verbatim>\<open>encrypt\<close> below asks the platform
  whether it accepts that many.
\<close>

definition Array_from :: "bytes \<Rightarrow> json" where
  "Array_from iv = JArr (map (\<lambda>b. JNum (uint b)) iv)"

definition fromCharCode :: "bytes \<Rightarrow> string" where
  "fromCharCode buffer = map (\<lambda>b. char_of (unat b)) buffer"

definition charCodes :: "string \<Rightarrow> bytes" where
  "charCodes s = map (\<lambda>c. of_nat (of_char c)) s"

fun is_JNum :: "json \<Rightarrow> bool" where
  "is_JNum (JNum n) = True"
| "is_JNum _ = False"

fun ToUint8 :: "json \<Rightarrow> 8 word" where
  "ToUint8 (JNum n) = word_of_int n"
| "ToUint8 _ = 0"

text \<open>
  \<^verbatim>\<open>new Uint8Array(iv)\<close>: an array of numbers is converted element by element
  (modulo 256); any other value is left to the platform (\<open>None\<close>: the constructor
  throws a RangeError).
\<close>

definition Uint8Array_new :: "platform \<Rightarrow> json option \<Rightarrow> bytes option" where
  "Uint8Array_new P x =
     (case x of
        Some (JArr xs) \<Rightarrow> if list_all is_JNum xs then Some (map ToUint8 xs) else coerce_bytes P x
      | _ \<Rightarrow> coerce_bytes P x)"

definition atob_value :: "platform \<Rightarrow> json option \<Rightarrow> string option" where
  "atob_value P x =
     (case x of Some (JStr s) \<Rightarrow> atob P s | _ \<Rightarrow> atob P (coerce_string P x))"

text \<open>Reading a property of a parsed value; only an object has \<open>iv\<close> or \<open>data\<close>.\<close>

fun get_prop :: "json \<Rightarrow> string \<Rightarrow> json option" where
  "get_prop (JObj fs) name = map_of fs name"
| "get_prop _ name = None"

definition envelope :: "bytes \<Rightarrow> string \<Rightarrow> json" where
  "envelope iv base64Data = JObj [(''iv'', Array_from iv), (''data'', JStr base64Data)]"

definition encrypt ::
  "platform \<Rightarrow> cryptokey option \<Rightarrow> string \<Rightarrow> world \<Rightarrow> (error + string) \<times> world" where
  "encrypt P encryptionKey data w =
     (case encryptionKey of
        None \<Rightarrow> (Inl KeyNotInitialized, w)
      | Some k \<Rightarrow>
          (case getRandomValues P 12 w of
             (iv, w1) \<Rightarrow>
               (case subtle_encrypt P k iv (TextEncoder_encode P data) of
                  None \<Rightarrow> (Inl OperationError, w1)
                | Some buffer \<Rightarrow>
                    if \<not> accepts_arguments P (length buffer) then (Inl RangeError, w1)
                    else (Inr (JSON_stringify P (envelope iv (btoa P (fromCharCode buffer)))), w1))))"

definition decrypt :: "platform \<Rightarrow> cryptokey option \<Rightarrow> string \<Rightarrow> error + string" where
  "decrypt P encryptionKey encrypted =
     (case encryptionKey of
        None \<Rightarrow> Inl KeyNotInitialized
      | Some k \<Rightarrow>
          (case JSON_parse P encrypted of
             None \<Rightarrow> Inl SyntaxError
           | Some JNull \<Rightarrow> Inl TypeError
           | Some j \<Rightarrow>
               (case Uint8Array_new P (get_prop j ''iv'') of
                  None \<Rightarrow> Inl RangeError
                | Some ivArray \<Rightarrow>
                    (case atob_value P (get_prop j ''data'') of
                       None \<Rightarrow> Inl InvalidCharacterError
                     | Some s \<Rightarrow>
                         (case subtle_decrypt P k ivArray (charCodes s) of
                            None \<Rightarrow> Inl OperationError
                          | Some decryptedData \<Rightarrow> Inr (TextDecoder_decode P decryptedData))))))"

section \<open>The encrypted storage\<close>

record storage =
  prefix_of :: string
  encryptionKey :: "cryptokey option"

text \<open>
  The constructor: \<^verbatim>\<open>this.prefix = prefix ?? "@edb"\<close>. The service is the AES-GCM
  one that \<^verbatim>\<open>createTypedSecureStorage\<close> builds around the derived key. Its
  \<^verbatim>\<open>encrypt\<close> and \<^verbatim>\<open>decrypt\<close> return strings, so the \<^verbatim>\<open>?? ""\<close> after each call
  never applies and is not modelled.
\<close>

definition EncryptedStorage :: "cryptokey option \<Rightarrow> string option \<Rightarrow> storage" where
  "EncryptedStorage k p =
     \<lparr>prefix_of = (case p of None \<Rightarrow> ''@edb'' | Some x \<Rightarrow> x), encryptionKey = k\<rparr>"

text \<open>The template literal \<^verbatim>\<open>`${this.prefix}_${String(tableName)}_${key}`\<close>.\<close>

definition storage_key :: "storage \<Rightarrow> string \<Rightarrow> string \<Rightarrow> string" where
  "storage_key S tableName key = prefix_of S @ ''_'' @ tableName @ ''_'' @ key"

definition table_prefix :: "storage \<Rightarrow> string \<Rightarrow> string" where
  "table_prefix S tableName = prefix_of S @ ''_'' @ tableName @ ''_''"

text \<open>JavaScript truthiness of the result of \<^verbatim>\<open>getItem\<close>: null and "" are falsy.\<close>

fun truthy :: "string option \<Rightarrow> bool" where
  "truthy None = False"
| "truthy (Some s) = (s \<noteq> [])"

definition exists_in :: "storage \<Rightarrow> string \<Rightarrow> string \<Rightarrow> world \<Rightarrow> bool" where
  "exists_in S tableName key w = truthy (getItem w (storage_key S tableName key))"

text \<open>
  The object spread \<^verbatim>\<open>{ ...value, key: k }\<close>: the own enumerable properties of the
  value (the fields of an object, the indexed elements of an array, the indexed
  characters of a string, none of a number, a boolean or null), then \<open>key\<close>, which
  replaces a property of that name.
\<close>

fun show_nat :: "nat \<Rightarrow> string" where
  "show_nat n =
     (if n < 10 then [char_of (48 + n)]
      else show_nat (n div 10) @ [char_of (48 + n mod 10)])"

definition indexed :: "json list \<Rightarrow> (string \<times> json) list" where
  "indexed xs = map (\<lambda>i. (show_nat i, xs ! i)) [0 ..< length xs]"

fun spread :: "json \<Rightarrow> (string \<times> json) list" where
  "spread (JObj fs) = fs"
| "spread (JArr xs) = indexed xs"
| "spread (JStr s) = indexed (map (\<lambda>c. JStr [c]) s)"
| "spread _ = []"

definition with_key :: "json \<Rightarrow> string \<Rightarrow> json" where
  "with_key v k = JObj (AList.update ''key'' (JStr k) (spread v))"

text \<open>
  \<^verbatim>\<open>key || crypto.randomUUID()\<close>: the random source is read only when the key is
  undefined or the empty string.
\<close>

definition finalKey_of :: "platform \<Rightarrow> string option \<Rightarrow> world \<Rightarrow> string \<times> world" where
  "finalKey_of P key w =
     (case key of
        None \<Rightarrow> randomUUID P w
      | Some k \<Rightarrow> if k = [] then randomUUID P w else (k, w))"

text \<open>
  What \<^verbatim>\<open>set\<close> does once the key is settled: encrypt the serialized value, write
  the item, return the value with its key. An exception of \<^verbatim>\<open>encrypt\<close> leaves the
  medium as it was.
\<close>

definition set_write ::
  "platform \<Rightarrow> storage \<Rightarrow> string \<Rightarrow> json \<Rightarrow> string \<Rightarrow> world \<Rightarrow> (error + json) \<times> world" where
  "set_write P S tableName v finalKey w1 =
     (case encrypt P (encryptionKey S) (JSON_stringify P v) w1 of
        (Inl e, w2) \<Rightarrow> (Inl e, w2)
      | (Inr encryptedValue, w2) \<Rightarrow>
          (Inr (with_key v finalKey),
           setItem (storage_key S tableName finalKey) encryptedValue w2))"

text \<open>
  \<^verbatim>\<open>set\<close>. The retry calls \<^verbatim>\<open>set\<close> again with no key; it may go on for ever, so the
  result is an option and \<open>None\<close> is a call that does not return.
\<close>

partial_function (option) set_value ::
  "platform \<Rightarrow> storage \<Rightarrow> string \<Rightarrow> json \<Rightarrow> string option \<Rightarrow> world
     \<Rightarrow> ((error + json) \<times> world) option" where
  "set_value P S tableName v key w =
     (case finalKey_of P key w of
        (finalKey, w1) \<Rightarrow>
          if exists_in S tableName finalKey w1 \<and> key = None
          then set_value P S tableName v None w1
          else Some (set_write P S tableName v finalKey w1))"

declare set_value.simps [code]

text \<open>The \<open>key\<close> property of a stored value, as a caller reads it.\<close>

definition key_of :: "json \<Rightarrow> string option" where
  "key_of r = (case get_prop r ''key'' of Some (JStr k) \<Rightarrow> Some k | _ \<Rightarrow> None)"

text \<open>
  Calling \<^verbatim>\<open>set\<close> with no key for each value of a list, one call after the other;
  the first exception ends the sequence.
\<close>

fun set_each ::
  "platform \<Rightarrow> storage \<Rightarrow> string \<Rightarrow> json list \<Rightarrow> world \<Rightarrow> ((error + json list) \<times> world) option" where
  "set_each P S tableName [] w = Some (Inr [], w)"
| "set_each P S tableName (v # vs) w =
     (case set_value P S tableName v None w of
        None \<Rightarrow> None
      | Some (Inl e, w1) \<Rightarrow> Some (Inl e, w1)
      | Some (Inr r, w1) \<Rightarrow>
          (case set_each P S tableName vs w1 of
             None \<Rightarrow> None
           | Some (Inl e, w2) \<Rightarrow> Some (Inl e, w2)
           | Some (Inr rs, w2) \<Rightarrow> Some (Inr (r # rs), w2)))"

text \<open>\<^verbatim>\<open>get\<close> returns JavaScript's null (\<open>JNull\<close>) when the item is falsy.\<close>

definition parse_decrypted :: "platform \<Rightarrow> storage \<Rightarrow> string \<Rightarrow> error + json" where
  "parse_decrypted P S item =
     (case decrypt P (encryptionKey S) item of
        Inl e \<Rightarrow> Inl e
      | Inr decryptedValue \<Rightarrow>
          (case JSON_parse P decryptedValue of
             None \<Rightarrow> Inl SyntaxError
           | Some j \<Rightarrow> Inr j))"

definition get :: "platform \<Rightarrow> storage \<Rightarrow> string \<Rightarrow> string \<Rightarrow> world \<Rightarrow> error + json" where
  "get P S tableName key w =
     (let item = getItem w (storage_key S tableName key) in
      if \<not> truthy item then Inr JNull
      else parse_decrypted P S (the item))"

text \<open>
  \<^verbatim>\<open>String.prototype.replace\<close> with a string pattern: the first occurrence is
  replaced. (The replacement the program passes is "", which has no \<^verbatim>\<open>$\<close> pattern.)
\<close>

fun replace_first :: "string \<Rightarrow> string \<Rightarrow> string \<Rightarrow> string" where
  "replace_first pat rep [] = (if pat = [] then rep else [])"
| "replace_first pat rep (c # cs) =
     (if prefix pat (c # cs) then rep @ drop (length pat) (c # cs)
      else c # replace_first pat rep cs)"

fun getAll_loop ::
  "platform \<Rightarrow> storage \<Rightarrow> string \<Rightarrow> world \<Rightarrow> string list \<Rightarrow> json list \<Rightarrow> error + json list" where
  "getAll_loop P S tableName w [] results = Inr results"
| "getAll_loop P S tableName w (key # keys) results =
     (let item = getItem w key in
      if truthy item then
        (case parse_decrypted P S (the item) of
           Inl e \<Rightarrow> Inl e
         | Inr j \<Rightarrow>
             getAll_loop P S tableName w keys
               (results @ [with_key j (replace_first (table_prefix S tableName) [] key)]))
      else getAll_loop P S tableName w keys results)"

definition getAll :: "platform \<Rightarrow> storage \<Rightarrow> string \<Rightarrow> world \<Rightarrow> error + json list" where
  "getAll P S tableName w =
     getAll_loop P S tableName w
       (filter (\<lambda>key. prefix (table_prefix S tableName) key) (Object_keys w)) []"

definition filter_items ::
  "platform \<Rightarrow> storage \<Rightarrow> string \<Rightarrow> (json \<Rightarrow> bool) \<Rightarrow> world \<Rightarrow> error + json list" where
  "filter_items P S tableName predicate w =
     (case getAll P S tableName w of
        Inl e \<Rightarrow> Inl e
      | Inr allItems \<Rightarrow> Inr (filter predicate allItems))"

definition remove :: "storage \<Rightarrow> string \<Rightarrow> string \<Rightarrow> world \<Rightarrow> world" where
  "remove S tableName key w = removeItem (storage_key S tableName key) w"

text \<open>
  Reading the UUID source ahead: the \<open>n\<close>-th UUID after the current position, and
  the world after \<open>n\<close> UUIDs have been drawn.
\<close>

definition skip_uuids :: "nat \<Rightarrow> world \<Rightarrow> world" where
  "skip_uuids n w = w\<lparr>uuid_pos := uuid_pos w + n\<rparr>"

definition nth_uuid :: "platform \<Rightarrow> world \<Rightarrow> nat \<Rightarrow> string" where
  "nth_uuid P w n = random_uuid P (uuid_pos w + n)"

section \<open>What the program relies on from the platform\<close>

text \<open>The nonce the next call of \<^verbatim>\<open>encrypt\<close> draws.\<close>

definition next_iv :: "platform \<Rightarrow> world \<Rightarrow> bytes" where
  "next_iv P w = fst (getRandomValues P 12 w)"

text \<open>
  The contracts of the platform at one key, one nonce and one plaintext: AES-GCM
  encrypts, and decrypts its own output under the same key and nonce; \<^verbatim>\<open>atob\<close>
  inverts \<^verbatim>\<open>btoa\<close>; \<^verbatim>\<open>JSON.parse\<close> inverts \<^verbatim>\<open>JSON.stringify\<close> on the envelope,
  whose text is not empty; the decoder inverts the encoder.
\<close>

definition cipher_roundtrip :: "platform \<Rightarrow> cryptokey \<Rightarrow> bytes \<Rightarrow> string \<Rightarrow> bool" where
  "cipher_roundtrip P k iv data =
     (case subtle_encrypt P k iv (TextEncoder_encode P data) of
        None \<Rightarrow> False
      | Some buffer \<Rightarrow>
          JSON_stringify P (envelope iv (btoa P (fromCharCode buffer))) \<noteq> [] \<and>
          JSON_parse P (JSON_stringify P (envelope iv (btoa P (fromCharCode buffer)))) =
            Some (envelope iv (btoa P (fromCharCode buffer))) \<and>
          atob P (btoa P (fromCharCode buffer)) = Some (fromCharCode buffer) \<and>
          subtle_decrypt P k iv buffer = Some (TextEncoder_encode P data) \<and>
          TextDecoder_decode P (TextEncoder_encode P data) = data)"

text \<open>A value is JSON-serializable when parsing its serialization gives it back.\<close>

definition serializable :: "platform \<Rightarrow> json \<Rightarrow> bool" where
  "serializable P v = (JSON_parse P (JSON_stringify P v) = Some v)"

section \<open>A small platform to run the program on\<close>

text \<open>
  A platform for running the definitions on concrete inputs: a serializer without
  escapes, a parser that knows a finite list of documents, a cipher that masks every
  byte with a byte computed from the key and the nonce and appends that byte as the
  tag, the identity as base64, random bytes 0, 1, 2, ... and UUIDs u0, u1, ...
\<close>

definition quote :: "string \<Rightarrow> string" where
  "quote s = [CHR 0x22] @ s @ [CHR 0x22]"

fun commas :: "string list \<Rightarrow> string" where
  "commas [] = []"
| "commas [x] = x"
| "commas (x # y # zs) = x @ '','' @ commas (y # zs)"

definition show_int :: "int \<Rightarrow> string" where
  "show_int n = (if n < 0 then ''-'' @ show_nat (nat (- n)) else show_nat (nat n))"

fun demo_stringify :: "json \<Rightarrow> string" where
  "demo_stringify JNull = ''null''"
| "demo_stringify (JBool b) = (if b then ''true'' else ''false'')"
| "demo_stringify (JNum n) = show_int n"
| "demo_stringify (JStr s) = quote s"
| "demo_stringify (JArr xs) = ''['' @ commas (map demo_stringify xs) @ '']''"
| "demo_stringify (JObj fs) =
     ''{'' @ commas (map (\<lambda>p. quote (fst p) @ '':'' @ demo_stringify (snd p)) fs) @ ''}''"

definition demo_mask :: "cryptokey \<Rightarrow> bytes \<Rightarrow> 8 word" where
  "demo_mask k iv = fold (+) (k @ iv) 1"

definition demo_encrypt :: "cryptokey \<Rightarrow> bytes \<Rightarrow> bytes \<Rightarrow> bytes option" where
  "demo_encrypt k iv plain = Some (map (\<lambda>b. b + demo_mask k iv) plain @ [demo_mask k iv])"

definition demo_decrypt :: "cryptokey \<Rightarrow> bytes \<Rightarrow> bytes \<Rightarrow> bytes option" where
  "demo_decrypt k iv cipher =
     (if cipher \<noteq> [] \<and> last cipher = demo_mask k iv
      then Some (map (\<lambda>b. b - demo_mask k iv) (butlast cipher))
      else None)"

definition demo_encode :: "string \<Rightarrow> bytes" where
  "demo_encode s = map (\<lambda>c. of_nat (of_char c)) s"

definition demo_decode :: "bytes \<Rightarrow> string" where
  "demo_decode bs = map (\<lambda>b. char_of (unat b)) bs"

definition demo_key :: cryptokey where
  "demo_key = [7, 7, 7]"

definition demo_todo :: json where
  "demo_todo = JObj [(''title'', JStr ''Buy milk''), (''completed'', JBool False)]"

definition demo_note :: json where
  "demo_note = JObj [(''title'', JStr ''Call''), (''completed'', JBool True)]"

definition demo_iv :: "nat \<Rightarrow> bytes" where
  "demo_iv pos = map of_nat [pos ..< pos + 12]"

definition demo_envelope :: "nat \<Rightarrow> json \<Rightarrow> json" where
  "demo_envelope pos v =
     envelope (demo_iv pos)
       (fromCharCode (the (demo_encrypt demo_key (demo_iv pos) (demo_encode (demo_stringify v)))))"

definition demo_docs :: "json list" where
  "demo_docs =
     [demo_envelope 36 demo_todo, demo_envelope 24 demo_todo,
      demo_envelope 12 demo_note, demo_envelope 0 demo_todo,
      demo_todo, demo_note]"

definition demo_parse :: "string \<Rightarrow> json option" where
  "demo_parse s = find (\<lambda>j. demo_stringify j = s) demo_docs"

definition demo_platform :: platform where
  "demo_platform =
     \<lparr>JSON_parse = demo_parse,
      JSON_stringify = demo_stringify,
      btoa = (\<lambda>s. s),
      atob = Some,
      TextEncoder_encode = demo_encode,
      TextDecoder_decode = demo_decode,
      subtle_encrypt = demo_encrypt,
      subtle_decrypt = demo_decrypt,
      coerce_bytes = (\<lambda>x. Some []),
      coerce_string = (\<lambda>x. ''undefined''),
      accepts_arguments = (\<lambda>n. True),
      random_byte = of_nat,
      random_uuid = (\<lambda>n. ''u'' @ show_nat n)\<rparr>"

definition demo_storage :: storage where
  "demo_storage = EncryptedStorage (Some demo_key) None"

definition empty_world :: world where
  "empty_world = \<lparr>localStorage = [], rand_pos = 0, uuid_pos = 0\<rparr>"

text \<open>Two worlds: one where the UUID u0 is taken, one with an item whose text is empty.\<close>

definition taken_world :: world where
  "taken_world = \<lparr>localStorage = [(''@edb_todos_u0'', ''old'')], rand_pos = 0, uuid_pos = 0\<rparr>"

definition blank_world :: world where
  "blank_world = \<lparr>localStorage = [(''@edb_todos_k'', [])], rand_pos = 0, uuid_pos = 0\<rparr>"

text \<open>Reading the outcome of a call that returned: the world after it, the key it returned.\<close>

definition world_after :: "('a \<times> world) option \<Rightarrow> world" where
  "world_after out = snd (the out)"

definition returned_key :: "((error + json) \<times> world) option \<Rightarrow> string option" where
  "returned_key out = (case out of Some (Inr r, w') \<Rightarrow> key_of r | _ \<Rightarrow> None)"

text \<open>Two calls of \<^verbatim>\<open>set\<close> with the empty string as the key, one after the other.\<close>

definition empty_key_first :: "((error + json) \<times> world) option" where
  "empty_key_first = set_value demo_platform demo_storage ''todos'' demo_todo (Some []) empty_world"

definition empty_key_second :: "((error + json) \<times> world) option" where
  "empty_key_second =
     set_value demo_platform demo_storage ''todos'' demo_note (Some []) (world_after empty_key_first)"

text \<open>
  A store with another key, the world after one value has been stored, and that world
  with one more item whose text is empty.
\<close>

definition other_storage :: storage where
  "other_storage = EncryptedStorage (Some [9]) None"

definition stored_world :: world where
  "stored_world =
     \<lparr>localStorage = [(''@edb_todos_u0'', demo_stringify (demo_envelope 0 demo_todo))],
      rand_pos = 12, uuid_pos = 1\<rparr>"

definition mixed_world :: world where
  "mixed_world =
     \<lparr>localStorage =
        [(''@edb_todos_k'', []),
         (''@edb_todos_u0'', demo_stringify (demo_envelope 0 demo_todo))],
      rand_pos = 12, uuid_pos = 1\<rparr>"

text \<open>A call of \<^verbatim>\<open>set\<close> under a table whose name has an underscore.\<close>

definition underscore_set :: "((error + json) \<times> world) option" where
  "underscore_set = set_value demo_platform demo_storage ''a_b'' demo_todo (Some ''k'') empty_world"

text \<open>A world whose random source has been read up to byte 24.\<close>

definition later_world :: world where
  "later_world = \<lparr>localStorage = [], rand_pos = 24, uuid_pos = 0\<rparr>"

text \<open>
  The contracts of the platform along a sequence of calls of \<^verbatim>\<open>set\<close>: the \<open>i\<close>-th
  call draws the 12 bytes that follow those of the calls before it.
\<close>

fun contracts_hold :: "platform \<Rightarrow> cryptokey \<Rightarrow> nat \<Rightarrow> json list \<Rightarrow> bool" where
  "contracts_hold P ck pos [] = True"
| "contracts_hold P ck pos (v # vs) =
     (cipher_roundtrip P ck (map (random_byte P) [pos ..< pos + 12]) (JSON_stringify P v) \<and>
      serializable P v \<and> contracts_hold P ck (pos + 12) vs)"

text \<open>A world where the key u0 holds the empty string, and a call of \<^verbatim>\<open>set\<close> with no key in it.\<close>

definition blank_uuid_world :: world where
  "blank_uuid_world = \<lparr>localStorage = [(''@edb_todos_u0'', [])], rand_pos = 0, uuid_pos = 0\<rparr>"

definition blank_uuid_set :: "((error + json) \<times> world) option" where
  "blank_uuid_set = set_value demo_platform demo_storage ''todos'' demo_todo None blank_uuid_world"

text \<open>
  A call of \<^verbatim>\<open>set\<close> with no key in the empty world, and the byte values of the
  ciphertext the small platform gives for the value stored.
\<close>

definition format_demo :: "((error + json) \<times> world) option" where
  "format_demo =
     set_value demo_platform (EncryptedStorage (Some demo_key) None) ''todos'' demo_todo None empty_world"

definition todo_cipher_codes :: "nat list" where
  "todo_cipher_codes =
     [211, 122, 204, 193, 204, 196, 189, 122, 146, 122, 154, 205, 209, 120, 197,
      193, 196, 195, 122, 132, 122, 187, 199, 197, 200, 196, 189, 204, 189, 188,
      122, 146, 190, 185, 196, 203, 189, 213, 88]"

text \<open>A world with one record of the table \<open>user_profiles\<close>.\<close>

definition profiles_world :: world where
  "profiles_world =
     \<lparr>localStorage = [(''@edb_user_profiles_u0'', demo_stringify (demo_envelope 0 demo_todo))],
      rand_pos = 12, uuid_pos = 1\<rparr>"

section \<open>Bytes, envelopes and the cipher\<close>

lemma Uint8Array_new_Array_from: "Uint8Array_new P (Some (Array_from iv)) = Some iv"
  by (simp add: Uint8Array_new_def Array_from_def list_all_iff comp_def map_idI)

lemma charCodes_fromCharCode: "charCodes (fromCharCode buffer) = buffer"
proof -
  have "of_nat (of_char (char_of (unat b) :: char)) = b" for b :: "8 word"
  proof -
    have "unat b < 256" using unsigned_less [of b] by simp
    then show ?thesis by (simp add: of_char_of)
  qed
  then show ?thesis by (simp add: charCodes_def fromCharCode_def comp_def map_idI)
qed

lemma decrypt_envelope:
  assumes "JSON_parse P text = Some (envelope iv (btoa P (fromCharCode buffer)))"
    and "atob P (btoa P (fromCharCode buffer)) = Some (fromCharCode buffer)"
  shows "decrypt P (Some k) text =
     (case subtle_decrypt P k iv buffer of
        None \<Rightarrow> Inl OperationError
      | Some d \<Rightarrow> Inr (TextDecoder_decode P d))"
  using assms
  by (simp add: decrypt_def envelope_def Uint8Array_new_Array_from atob_value_def
      charCodes_fromCharCode)

lemma exists_in_skip [simp]: "exists_in S T k (skip_uuids n w) = exists_in S T k w"
  by (simp add: exists_in_def skip_uuids_def getItem_def)

lemma set_value_explicit:
  "k \<noteq> [] \<Longrightarrow> set_value P S T v (Some k) w = Some (set_write P S T v k w)"
  by (subst set_value.simps)
     (simp add: finalKey_of_def set_write_def split: prod.splits sum.splits)

lemma set_value_empty:
  "set_value P S T v (Some []) w = Some (set_write P S T v (nth_uuid P w 0) (skip_uuids (Suc 0) w))"
  by (subst set_value.simps)
     (simp add: finalKey_of_def randomUUID_def set_write_def nth_uuid_def skip_uuids_def
        split: prod.splits sum.splits)

lemma set_value_omitted:
  "set_value P S T v None w =
     (if exists_in S T (nth_uuid P w 0) w then set_value P S T v None (skip_uuids (Suc 0) w)
      else Some (set_write P S T v (nth_uuid P w 0) (skip_uuids (Suc 0) w)))"
proof -
  have e: "exists_in S T k (w\<lparr>uuid_pos := n\<rparr>) = exists_in S T k w" for k n
    by (simp add: exists_in_def getItem_def)
  show ?thesis
    by (subst set_value.simps)
       (simp add: finalKey_of_def randomUUID_def set_write_def nth_uuid_def skip_uuids_def e
          split: prod.splits sum.splits)
qed

lemma set_value_omitted_at:
  "(\<forall>i<n. exists_in S T (nth_uuid P w i) w) \<Longrightarrow> \<not> exists_in S T (nth_uuid P w n) w \<Longrightarrow>
   set_value P S T v None w = Some (set_write P S T v (nth_uuid P w n) (skip_uuids (Suc n) w))"
proof (induction n arbitrary: w)
  case 0
  then show ?case by (subst set_value_omitted) simp
next
  case (Suc n)
  have shift: "nth_uuid P (skip_uuids (Suc 0) w) i = nth_uuid P w (Suc i)" for i
    by (simp add: nth_uuid_def skip_uuids_def)
  have skip: "skip_uuids (Suc n) (skip_uuids (Suc 0) w) = skip_uuids (Suc (Suc n)) w"
    by (simp add: skip_uuids_def)
  from Suc.prems have "exists_in S T (nth_uuid P w 0) w" by blast
  moreover have "set_value P S T v None (skip_uuids (Suc 0) w) =
      Some (set_write P S T v (nth_uuid P (skip_uuids (Suc 0) w) n) (skip_uuids (Suc n) (skip_uuids (Suc 0) w)))"
    using Suc.prems by (intro Suc.IH) (auto simp: shift)
  ultimately show ?case
    by (subst set_value_omitted) (simp add: shift skip)
qed

lemma set_value_returns_fresh:
  assumes "set_value P S T v None w = Some out"
  shows "\<exists>n. \<not> exists_in S T (nth_uuid P w n) w"
proof -
  define Q where "Q = (\<lambda>(x :: ((((platform \<times> storage) \<times> string) \<times> json) \<times> string option) \<times> world)
     (out :: (error + json) \<times> world).
       snd (fst x) = None \<longrightarrow>
         (\<exists>n. \<not> exists_in (snd (fst (fst (fst (fst x))))) (snd (fst (fst (fst x))))
                 (nth_uuid (fst (fst (fst (fst (fst x))))) (snd x) n) (snd x)))"
  note R = set_value.raw_induct [where Pa = Q, OF _ assms]
  have "Q (((((P, S), T), v), None), w) out"
  proof (rule R)
    fix f P S T v key w and out :: "(error + json) \<times> world"
    assume IH: "\<And>P S T v key w y. f P S T v key w = Some y \<Longrightarrow> Q (((((P, S), T), v), key), w) y"
      and body: "(case finalKey_of P key w of
        (finalKey, w1) \<Rightarrow>
          if exists_in S T finalKey w1 \<and> key = None
          then f P S T v None w1
          else Some (set_write P S T v finalKey w1)) = Some out"
    show "Q (((((P, S), T), v), key), w) out"
      unfolding Q_def
    proof (clarsimp)
      assume k: "key = None"
      show "\<exists>n. \<not> exists_in S T (nth_uuid P w n) w"
      proof (cases "exists_in S T (nth_uuid P w 0) w")
        case False
        then show ?thesis by blast
      next
        case True
        have fk: "finalKey_of P None w = (nth_uuid P w 0, skip_uuids (Suc 0) w)"
          by (simp add: finalKey_of_def randomUUID_def nth_uuid_def skip_uuids_def)
        from body k True have "f P S T v None (skip_uuids (Suc 0) w) = Some out"
          by (simp add: fk)
        from IH [OF this] obtain n where
          "\<not> exists_in S T (nth_uuid P (skip_uuids (Suc 0) w) n) (skip_uuids (Suc 0) w)"
          by (auto simp: Q_def)
        then have "\<not> exists_in S T (nth_uuid P w (Suc n)) w"
          by (simp add: nth_uuid_def) (simp add: skip_uuids_def)
        then show ?thesis by blast
      qed
    qed
  qed
  then show ?thesis by (simp add: Q_def)
qed

section \<open>The small platform keeps the contracts\<close>

lemma commas_Cons: "commas (x # xs) = x @ (if xs = [] then [] else '','' @ commas xs)"
  by (cases xs) simp_all

lemma demo_iv_Cons: "demo_iv pos = of_nat pos # map of_nat [Suc pos ..< pos + 12]"
  by (simp add: demo_iv_def upt_rec)

lemma envelope_text:
  "demo_stringify (envelope (b # iv) d) =
     CHR ''{'' # CHR 0x22 # CHR ''i'' # CHR ''v'' # CHR 0x22 # CHR '':'' # CHR ''['' #
       (show_int (uint b) @ (if iv = [] then [] else '','' @ commas (map (\<lambda>x. show_int (uint x)) iv))
         @ '']'' @ '','' @ quote ''data'' @ '':'' @ quote d @ ''}'')"
  by (simp add: envelope_def Array_from_def quote_def commas_Cons comp_def)

lemma demo_envelope_text:
  "\<exists>d rest. demo_envelope pos v = envelope (demo_iv pos) d \<and>
     demo_stringify (demo_envelope pos v) =
       CHR ''{'' # CHR 0x22 # CHR ''i'' # CHR ''v'' # CHR 0x22 # CHR '':'' # CHR ''['' #
         (show_int (uint (of_nat pos :: 8 word)) @ rest)"
  unfolding demo_envelope_def demo_iv_Cons envelope_text by blast

lemma envelope_third: "demo_stringify (demo_envelope pos v) ! 2 = CHR ''i''"
  using demo_envelope_text [of pos v] by auto

lemma envelope_digit:
  "show_int (uint (of_nat pos :: 8 word)) = c # cs \<Longrightarrow> demo_stringify (demo_envelope pos v) ! 7 = c"
  using demo_envelope_text [of pos v] by auto

lemma first_digits:
  "show_int (uint (of_nat 0 :: 8 word)) = ''0''"
  "show_int (uint (of_nat 12 :: 8 word)) = ''12''"
  "show_int (uint (of_nat 24 :: 8 word)) = ''24''"
  "show_int (uint (of_nat 36 :: 8 word)) = ''36''"
  by code_simp+

lemma envelope_digits:
  "demo_stringify (demo_envelope 0 v) ! 7 = CHR ''0''"
  "demo_stringify (demo_envelope 12 v) ! 7 = CHR ''1''"
  "demo_stringify (demo_envelope 24 v) ! 7 = CHR ''2''"
  "demo_stringify (demo_envelope 36 v) ! 7 = CHR ''3''"
  by (rule envelope_digit, rule first_digits)+

lemma value_texts:
  "demo_stringify demo_todo \<noteq> demo_stringify demo_note"
  "demo_stringify demo_todo ! 2 = CHR ''t''"
  "demo_stringify demo_note ! 2 = CHR ''t''"
  by code_simp+

lemma differ_at: "xs ! n \<noteq> ys ! n \<Longrightarrow> xs \<noteq> ys"
  by auto

lemma envelope_not_value:
  "demo_stringify (demo_envelope pos v) \<noteq> demo_stringify demo_todo"
  "demo_stringify (demo_envelope pos v) \<noteq> demo_stringify demo_note"
  by (rule differ_at [of _ 2], simp add: envelope_third value_texts)+

lemma envelope_texts_differ:
  "demo_stringify (demo_envelope 36 v) \<noteq> demo_stringify (demo_envelope 24 v')"
  "demo_stringify (demo_envelope 36 v) \<noteq> demo_stringify (demo_envelope 12 v')"
  "demo_stringify (demo_envelope 36 v) \<noteq> demo_stringify (demo_envelope 0 v')"
  "demo_stringify (demo_envelope 24 v) \<noteq> demo_stringify (demo_envelope 12 v')"
  "demo_stringify (demo_envelope 24 v) \<noteq> demo_stringify (demo_envelope 0 v')"
  "demo_stringify (demo_envelope 12 v) \<noteq> demo_stringify (demo_envelope 0 v')"
  by (rule differ_at [of _ 7], simp add: envelope_digits)+

lemma demo_parse_docs:
  "demo_parse (demo_stringify (demo_envelope 36 demo_todo)) = Some (demo_envelope 36 demo_todo)"
  "demo_parse (demo_stringify (demo_envelope 24 demo_todo)) = Some (demo_envelope 24 demo_todo)"
  "demo_parse (demo_stringify (demo_envelope 12 demo_note)) = Some (demo_envelope 12 demo_note)"
  "demo_parse (demo_stringify (demo_envelope 0 demo_todo)) = Some (demo_envelope 0 demo_todo)"
  "demo_parse (demo_stringify demo_todo) = Some demo_todo"
  "demo_parse (demo_stringify demo_note) = Some demo_note"
  using envelope_texts_differ envelope_not_value value_texts(1)
  by (simp_all add: demo_parse_def demo_docs_def)

section \<open>What a call of set does\<close>

lemma skip_uuids_0 [simp]: "skip_uuids 0 w = w"
  by (simp add: skip_uuids_def)

lemma skip_uuids_fields [simp]:
  "localStorage (skip_uuids n w) = localStorage w"
  "rand_pos (skip_uuids n w) = rand_pos w"
  "uuid_pos (skip_uuids n w) = uuid_pos w + n"
  by (simp_all add: skip_uuids_def)

lemma next_iv_skip [simp]: "next_iv P (skip_uuids n w) = next_iv P w"
  by (simp add: next_iv_def getRandomValues_def)

lemma getItem_skip [simp]: "getItem (skip_uuids n w) k = getItem w k"
  by (simp add: getItem_def)

lemma next_iv_eq: "next_iv P w = map (random_byte P) [rand_pos w ..< rand_pos w + 12]"
  by (simp add: next_iv_def getRandomValues_def)

lemma length_next_iv: "length (next_iv P w) = 12"
  by (simp add: next_iv_def getRandomValues_def)

lemma set_value_omitted_returns:
  assumes "set_value P S T v None w = Some out"
  shows "\<exists>n. (\<forall>i<n. exists_in S T (nth_uuid P w i) w) \<and> \<not> exists_in S T (nth_uuid P w n) w \<and>
            out = set_write P S T v (nth_uuid P w n) (skip_uuids (Suc n) w)"
proof -
  define n where "n = (LEAST n. \<not> exists_in S T (nth_uuid P w n) w)"
  from set_value_returns_fresh [OF assms] have fresh: "\<not> exists_in S T (nth_uuid P w n) w"
    unfolding n_def by (rule LeastI_ex)
  have before: "\<forall>i<n. exists_in S T (nth_uuid P w i) w"
    unfolding n_def using not_less_Least by blast
  from set_value_omitted_at [OF before fresh, of v] assms show ?thesis
    using before fresh by auto
qed

lemma set_value_returns:
  assumes "set_value P S T v key w = Some out"
  shows "\<exists>fk m. out = set_write P S T v fk (skip_uuids m w) \<and>
           (key = None \<longrightarrow> \<not> exists_in S T fk w) \<and>
           (\<forall>k. key = Some k \<and> k \<noteq> [] \<longrightarrow> fk = k \<and> m = 0)"
proof (cases key)
  case None
  with set_value_omitted_returns [of P S T v w out] assms show ?thesis by blast
next
  case (Some k)
  show ?thesis
  proof (cases "k = []")
    case True
    with Some assms have "out = set_write P S T v (nth_uuid P w 0) (skip_uuids (Suc 0) w)"
      by (simp add: set_value_empty)
    with Some True show ?thesis by blast
  next
    case False
    with Some assms have "out = set_write P S T v k (skip_uuids 0 w)"
      by (simp add: set_value_explicit)
    with Some False show ?thesis by blast
  qed
qed

lemma set_write_Inr:
  assumes "set_write P S T v fk w1 = (Inr r, w')"
  shows "r = with_key v fk \<and>
         (\<exists>k buffer. encryptionKey S = Some k \<and>
            subtle_encrypt P k (next_iv P w1) (TextEncoder_encode P (JSON_stringify P v)) = Some buffer \<and>
            w' = setItem (storage_key S T fk)
                   (JSON_stringify P (envelope (next_iv P w1) (btoa P (fromCharCode buffer))))
                   (snd (getRandomValues P 12 w1)))"
  using assms
  by (auto simp: set_write_def encrypt_def next_iv_def
      split: prod.splits sum.splits option.splits if_splits)

lemma key_of_with_key [simp]: "key_of (with_key v k) = Some k"
  by (simp add: key_of_def with_key_def update_conv')

lemma localStorage_setItem [simp]:
  "localStorage (setItem k t w) = AList.update k t (localStorage w)"
  by (simp add: setItem_def)

lemma localStorage_getRandomValues [simp]:
  "localStorage (snd (getRandomValues P n w)) = localStorage w"
  by (simp add: getRandomValues_def)

lemma set_write_success:
  assumes "encryptionKey S = Some k"
    and "subtle_encrypt P k (next_iv P w1) (TextEncoder_encode P (JSON_stringify P v)) = Some buffer"
    and "accepts_arguments P (length buffer)"
  shows "set_write P S T v fk w1 =
     (Inr (with_key v fk),
      setItem (storage_key S T fk)
        (JSON_stringify P (envelope (next_iv P w1) (btoa P (fromCharCode buffer))))
        (snd (getRandomValues P 12 w1)))"
  using assms by (auto simp: set_write_def encrypt_def next_iv_def split: prod.splits)

lemma demo_fields:
  "JSON_parse demo_platform = demo_parse"
  "JSON_stringify demo_platform = demo_stringify"
  "btoa demo_platform = (\<lambda>s. s)"
  "atob demo_platform = Some"
  "TextEncoder_encode demo_platform = demo_encode"
  "TextDecoder_decode demo_platform = demo_decode"
  "subtle_encrypt demo_platform = demo_encrypt"
  "subtle_decrypt demo_platform = demo_decrypt"
  "random_byte demo_platform = of_nat"
  "random_uuid demo_platform = (\<lambda>n. ''u'' @ show_nat n)"
  "accepts_arguments demo_platform = (\<lambda>n. True)"
  by (simp_all add: demo_platform_def)

lemma demo_storage_fields:
  "encryptionKey demo_storage = Some demo_key"
  "prefix_of demo_storage = ''@edb''"
  by (simp_all add: demo_storage_def EncryptedStorage_def)

lemma demo_uuids:
  "nth_uuid demo_platform empty_world 0 = ''u0''"
  "nth_uuid demo_platform empty_world 1 = ''u1''"
  by code_simp+

lemma demo_set_write:
  "\<exists>item. set_write demo_platform demo_storage T v fk w =
     (Inr (with_key v fk), setItem (storage_key demo_storage T fk) item (snd (getRandomValues demo_platform 12 w)))"
proof -
  have "subtle_encrypt demo_platform demo_key (next_iv demo_platform w)
          (TextEncoder_encode demo_platform (JSON_stringify demo_platform v)) =
        demo_encrypt demo_key (next_iv demo_platform w) (demo_encode (demo_stringify v))"
    by (simp add: demo_fields)
  also have "\<dots> = Some (the (demo_encrypt demo_key (next_iv demo_platform w) (demo_encode (demo_stringify v))))"
    by (simp add: demo_encrypt_def)
  finally have e: "subtle_encrypt demo_platform demo_key (next_iv demo_platform w)
          (TextEncoder_encode demo_platform (JSON_stringify demo_platform v)) =
        Some (the (demo_encrypt demo_key (next_iv demo_platform w) (demo_encode (demo_stringify v))))" .
  have a: "accepts_arguments demo_platform n" for n
    by (simp add: demo_fields)
  from set_write_success [OF demo_storage_fields(1) e a] show ?thesis by blast
qed

section \<open>The storage format\<close>

lemma demo_cipher_bytes:
  "demo_encrypt demo_key (map of_nat [0 ..< 0 + 12]) (demo_encode (demo_stringify demo_todo)) =
     Some (map of_nat todo_cipher_codes)"
  by code_simp

lemma demo_iv_text:
  "commas (map demo_stringify (map (\<lambda>b. JNum (uint b)) (map of_nat [0 ..< 0 + 12] :: 8 word list))) =
     ''0,1,2,3,4,5,6,7,8,9,10,11''"
  by code_simp

lemma demo_unat_codes: "map unat (map of_nat todo_cipher_codes :: 8 word list) = todo_cipher_codes"
  by code_simp

lemma demo_envelope_literal:
  "demo_stringify
     (JObj [(''iv'', JArr (map (\<lambda>b. JNum (uint b)) (map of_nat [0 ..< 0 + 12] :: 8 word list))),
            (''data'', JStr d)]) =
   ''{'' @ quote ''iv'' @ '':[0,1,2,3,4,5,6,7,8,9,10,11],'' @ quote ''data'' @ '':'' @ quote d @ ''}''"
  by (simp only: demo_stringify.simps list.map fst_conv snd_conv commas.simps demo_iv_text) simp


lemma set_write_Inl:
  "set_write P S T v fk w1 = (Inl e, w') \<Longrightarrow> localStorage w' = localStorage w1"
  by (auto simp: set_write_def encrypt_def getRandomValues_def
      split: prod.splits sum.splits option.splits if_splits)

lemma codes_fromCharCode: "map of_char (fromCharCode buffer) = (map unat buffer :: nat list)"
proof -
  have "of_char (char_of (unat b)) = unat b" for b :: "8 word"
  proof -
    have "unat b < 256" using unsigned_less [of b] by simp
    then show ?thesis by (simp add: of_char_of)
  qed
  then show ?thesis by (simp add: fromCharCode_def)
qed

text \<open>
  Claim C7. Every item that \<^verbatim>\<open>set\<close> writes is stored under the key
  \<open>prefix_tableName_recordKey\<close>, joined by underscores, with the prefix \<open>@edb\<close> when
  the caller gives none; the record key is the key returned, and the caller's own key
  when one is given that is not empty. The value is the JSON text of an object whose
  field \<open>iv\<close> is the nonce, the 12 bytes drawn from the random source, as an array of
  byte values, and whose field \<open>data\<close> is \<^verbatim>\<open>btoa\<close> of the string whose character codes
  are the bytes of the ciphertext. Nothing else in the medium changes, and a call
  that fails writes nothing.
\<close>

theorem storage_format:
  assumes "set_value P (EncryptedStorage K pfx) T v key w = Some (res, w')"
  shows "(\<forall>e. res = Inl e \<longrightarrow> localStorage w' = localStorage w) \<and>
         (\<forall>r. res = Inr r \<longrightarrow>
            (\<exists>recordKey k buffer s.
               key_of r = Some recordKey \<and>
               (\<forall>x. key = Some x \<and> x \<noteq> [] \<longrightarrow> recordKey = x) \<and>
               K = Some k \<and>
               subtle_encrypt P k (map (random_byte P) [rand_pos w ..< rand_pos w + 12])
                 (TextEncoder_encode P (JSON_stringify P v)) = Some buffer \<and>
               map of_char s = (map unat buffer :: nat list) \<and>
               localStorage w' =
                 AList.update
                   ((case pfx of None \<Rightarrow> ''@edb'' | Some p \<Rightarrow> p) @ ''_'' @ T @ ''_'' @ recordKey)
                   (JSON_stringify P
                      (JObj [(''iv'', JArr (map (\<lambda>b. JNum (uint b))
                                (map (random_byte P) [rand_pos w ..< rand_pos w + 12]))),
                             (''data'', JStr (btoa P s))]))
                   (localStorage w)))"
proof (intro conjI allI impI)
  let ?S = "EncryptedStorage K pfx"
  from set_value_returns [OF assms] obtain fk m where
    sw: "set_write P ?S T v fk (skip_uuids m w) = (res, w')"
    and given: "\<forall>x. key = Some x \<and> x \<noteq> [] \<longrightarrow> fk = x \<and> m = 0"
    by metis
  {
    fix e
    assume "res = Inl e"
    with sw have "set_write P ?S T v fk (skip_uuids m w) = (Inl e, w')" by simp
    from set_write_Inl [OF this] show "localStorage w' = localStorage w" by simp
  next
    fix r
    assume "res = Inr r"
    with sw have sw': "set_write P ?S T v fk (skip_uuids m w) = (Inr r, w')" by simp
    from set_write_Inr [OF sw'] obtain k buffer where
      r: "r = with_key v fk" and K: "encryptionKey ?S = Some k"
      and enc: "subtle_encrypt P k (next_iv P w) (TextEncoder_encode P (JSON_stringify P v)) = Some buffer"
      and w': "w' = setItem (storage_key ?S T fk)
                     (JSON_stringify P (envelope (next_iv P w) (btoa P (fromCharCode buffer))))
                     (snd (getRandomValues P 12 (skip_uuids m w)))"
      by auto
    have store: "localStorage w' =
        AList.update ((case pfx of None \<Rightarrow> ''@edb'' | Some p \<Rightarrow> p) @ ''_'' @ T @ ''_'' @ fk)
          (JSON_stringify P
             (JObj [(''iv'', JArr (map (\<lambda>b. JNum (uint b))
                       (map (random_byte P) [rand_pos w ..< rand_pos w + 12]))),
                    (''data'', JStr (btoa P (fromCharCode buffer)))]))
          (localStorage w)"
      by (simp add: w' storage_key_def EncryptedStorage_def envelope_def Array_from_def next_iv_eq)
    from r have k1: "key_of r = Some fk" by simp
    from K have k2: "K = Some k" by (simp add: EncryptedStorage_def)
    from enc have k3: "subtle_encrypt P k (map (random_byte P) [rand_pos w ..< rand_pos w + 12])
                 (TextEncoder_encode P (JSON_stringify P v)) = Some buffer"
      by (simp add: next_iv_eq)
    from given have k4: "\<forall>x. key = Some x \<and> x \<noteq> [] \<longrightarrow> fk = x" by blast
    from k1 k4 k2 k3 codes_fromCharCode [of buffer] store
    show "\<exists>recordKey k buffer s.
               key_of r = Some recordKey \<and>
               (\<forall>x. key = Some x \<and> x \<noteq> [] \<longrightarrow> recordKey = x) \<and>
               K = Some k \<and>
               subtle_encrypt P k (map (random_byte P) [rand_pos w ..< rand_pos w + 12])
                 (TextEncoder_encode P (JSON_stringify P v)) = Some buffer \<and>
               map of_char s = (map unat buffer :: nat list) \<and>
               localStorage w' =
                 AList.update
                   ((case pfx of None \<Rightarrow> ''@edb'' | Some p \<Rightarrow> p) @ ''_'' @ T @ ''_'' @ recordKey)
                   (JSON_stringify P
                      (JObj [(''iv'', JArr (map (\<lambda>b. JNum (uint b))
                                (map (random_byte P) [rand_pos w ..< rand_pos w + 12]))),
                             (''data'', JStr (btoa P s))]))
                   (localStorage w)"
      by blast
  }
qed

lemma of_char_inject_list: "map of_char s = (cs :: nat list) \<Longrightarrow> s = map char_of cs"
proof -
  assume "map of_char s = cs"
  then have "map char_of cs = map (char_of \<circ> (of_char :: char \<Rightarrow> nat)) s" by auto
  then show ?thesis by (simp add: comp_def)
qed

theorem storage_format_witness:
  "format_demo \<noteq> None \<and> returned_key format_demo = Some ''u0'' \<and>
   localStorage (world_after format_demo) =
     [(''@edb_todos_u0'',
       ''{'' @ quote ''iv'' @ '':[0,1,2,3,4,5,6,7,8,9,10,11],'' @ quote ''data'' @ '':'' @
         quote (map char_of todo_cipher_codes) @ ''}'')]"
proof -
  have fresh: "\<not> exists_in demo_storage ''todos'' (nth_uuid demo_platform empty_world 0) empty_world"
    by (simp add: exists_in_def getItem_def empty_world_def)
  obtain item0 where sw0: "set_write demo_platform demo_storage ''todos'' demo_todo ''u0''
      (skip_uuids (Suc 0) empty_world) =
     (Inr (with_key demo_todo ''u0''),
      setItem (storage_key demo_storage ''todos'' ''u0'') item0
        (snd (getRandomValues demo_platform 12 (skip_uuids (Suc 0) empty_world))))"
    using demo_set_write by blast
  define w' where "w' = setItem (storage_key demo_storage ''todos'' ''u0'') item0
        (snd (getRandomValues demo_platform 12 (skip_uuids (Suc 0) empty_world)))"
  from sw0 have sw: "set_write demo_platform demo_storage ''todos'' demo_todo ''u0''
      (skip_uuids (Suc 0) empty_world) = (Inr (with_key demo_todo ''u0''), w')"
    by (simp add: w'_def)
  let ?r = "with_key demo_todo ''u0''"
  have run: "set_value demo_platform (EncryptedStorage (Some demo_key) None) ''todos'' demo_todo None
      empty_world = Some (Inr ?r, w')"
    using set_value_omitted_at [of 0 demo_storage "''todos''" demo_platform empty_world demo_todo] fresh sw
    by (simp add: demo_uuids demo_storage_def)
  from storage_format [OF run, THEN conjunct2, rule_format, OF refl] obtain recordKey k buffer s where
    rk: "key_of ?r = Some recordKey" and k: "Some demo_key = Some k"
    and enc: "subtle_encrypt demo_platform k
       (map (random_byte demo_platform) [rand_pos empty_world ..< rand_pos empty_world + 12])
       (TextEncoder_encode demo_platform (JSON_stringify demo_platform demo_todo)) = Some buffer"
    and s: "map of_char s = (map unat buffer :: nat list)"
    and store: "localStorage w' =
       AList.update ((case None of None \<Rightarrow> ''@edb'' | Some p \<Rightarrow> p) @ ''_'' @ ''todos'' @ ''_'' @ recordKey)
         (JSON_stringify demo_platform
            (JObj [(''iv'', JArr (map (\<lambda>b. JNum (uint b))
                      (map (random_byte demo_platform) [rand_pos empty_world ..< rand_pos empty_world + 12]))),
                   (''data'', JStr (btoa demo_platform s))]))
         (localStorage empty_world)"
    by blast
  from rk have recordKey: "recordKey = ''u0''" by simp
  have pos: "rand_pos empty_world = 0" by (simp add: empty_world_def)
  from enc k have "demo_encrypt demo_key (map of_nat [0 ..< 0 + 12]) (demo_encode (demo_stringify demo_todo)) =
      Some buffer"
    by (simp only: pos demo_fields) simp
  with demo_cipher_bytes have "buffer = map of_nat todo_cipher_codes" by simp
  with s demo_unat_codes have "map of_char s = todo_cipher_codes" by simp
  then have s': "s = map char_of todo_cipher_codes" by (rule of_char_inject_list)
  have "localStorage w' =
     [(''@edb_todos_u0'',
       demo_stringify
         (JObj [(''iv'', JArr (map (\<lambda>b. JNum (uint b)) (map of_nat [0 ..< 0 + 12] :: 8 word list))),
                (''data'', JStr (map char_of todo_cipher_codes))]))]"
    unfolding store recordKey s' pos demo_fields by (simp add: empty_world_def)
  then have "localStorage w' =
     [(''@edb_todos_u0'',
       ''{'' @ quote ''iv'' @ '':[0,1,2,3,4,5,6,7,8,9,10,11],'' @ quote ''data'' @ '':'' @
         quote (map char_of todo_cipher_codes) @ ''}'')]"
    by (simp only: demo_envelope_literal)
  with run show ?thesis
    by (simp add: format_demo_def returned_key_def world_after_def)
qed

section \<open>The empty string as a key\<close>

lemma skip_uuids_Suc0: "skip_uuids (Suc 0) w = w\<lparr>uuid_pos := Suc (uuid_pos w)\<rparr>"
  by (simp add: skip_uuids_def)

text \<open>
  Claim C9. \<^verbatim>\<open>set(T, V, "")\<close> does not store under the key "": the final key is
  \<^verbatim>\<open>key || crypto.randomUUID()\<close>, so one UUID is drawn, the item is written under
  it and it is the key returned. The retry is guarded by \<^verbatim>\<open>key == undefined\<close>, so
  the call writes at once, whether or not an item already exists under that UUID.
\<close>

theorem empty_key_draws_uuid:
  "set_value P S T v (Some []) w =
     Some (set_write P S T v (random_uuid P (uuid_pos w)) (w\<lparr>uuid_pos := Suc (uuid_pos w)\<rparr>)) \<and>
   (\<forall>r w'. set_write P S T v (random_uuid P (uuid_pos w)) (w\<lparr>uuid_pos := Suc (uuid_pos w)\<rparr>) = (Inr r, w')
      \<longrightarrow> key_of r = Some (random_uuid P (uuid_pos w)) \<and> uuid_pos w' = Suc (uuid_pos w) \<and>
          (\<exists>item. localStorage w' =
             AList.update (storage_key S T (random_uuid P (uuid_pos w))) item (localStorage w)))"
proof (intro conjI allI impI)
  show "set_value P S T v (Some []) w =
     Some (set_write P S T v (random_uuid P (uuid_pos w)) (w\<lparr>uuid_pos := Suc (uuid_pos w)\<rparr>))"
    by (simp add: set_value_empty nth_uuid_def skip_uuids_Suc0)
next
  fix r w'
  assume "set_write P S T v (random_uuid P (uuid_pos w)) (w\<lparr>uuid_pos := Suc (uuid_pos w)\<rparr>) = (Inr r, w')"
  from set_write_Inr [OF this]
  show "key_of r = Some (random_uuid P (uuid_pos w))"
    and "uuid_pos w' = Suc (uuid_pos w)"
    and "\<exists>item. localStorage w' =
             AList.update (storage_key S T (random_uuid P (uuid_pos w))) item (localStorage w)"
    by (auto simp: getRandomValues_def setItem_def)
qed

theorem empty_key_draws_uuid_witness:
  "exists_in demo_storage ''todos'' ''u0'' taken_world \<and>
   (\<exists>r w' item.
      set_value demo_platform demo_storage ''todos'' demo_todo (Some []) taken_world = Some (Inr r, w') \<and>
      key_of r = Some ''u0'' \<and> uuid_pos w' = 1 \<and> localStorage w' = [(''@edb_todos_u0'', item)])"
proof -
  have u: "random_uuid demo_platform (uuid_pos taken_world) = ''u0''"
    by code_simp
  have sk: "storage_key demo_storage ''todos'' ''u0'' = ''@edb_todos_u0''"
    by (simp add: storage_key_def demo_storage_fields)
  have ex: "exists_in demo_storage ''todos'' ''u0'' taken_world"
    by (simp add: exists_in_def sk getItem_def taken_world_def)
  obtain r w' where sw: "set_write demo_platform demo_storage ''todos'' demo_todo ''u0''
      (taken_world\<lparr>uuid_pos := Suc (uuid_pos taken_world)\<rparr>) = (Inr r, w')"
    using demo_set_write by blast
  note inst = empty_key_draws_uuid [of demo_platform demo_storage "''todos''" demo_todo taken_world]
  from inst sw have returns:
    "set_value demo_platform demo_storage ''todos'' demo_todo (Some []) taken_world = Some (Inr r, w')"
    by (simp only: u)
  from inst [THEN conjunct2, unfolded u, rule_format, OF sw] obtain item where
    k: "key_of r = Some ''u0''" and p: "uuid_pos w' = Suc (uuid_pos taken_world)"
    and l: "localStorage w' = AList.update (storage_key demo_storage ''todos'' ''u0'') item (localStorage taken_world)"
    by blast
  from p have p1: "uuid_pos w' = 1" by (simp add: taken_world_def)
  from l have l1: "localStorage w' = [(''@edb_todos_u0'', item)]"
    by (simp add: sk taken_world_def)
  from ex returns k p1 l1 show ?thesis by blast
qed

section \<open>Items whose text is empty\<close>

lemma getItem_removeItem:
  "getItem (removeItem sk w) key = (if key = sk then None else getItem w key)"
  by (simp add: getItem_def removeItem_def delete_conv)

lemma Object_keys_removeItem:
  "Object_keys (removeItem sk w) = filter (\<lambda>x. x \<noteq> sk) (Object_keys w)"
proof -
  have "(\<lambda>y. sk \<noteq> y) = (\<lambda>x. x \<noteq> sk)" by auto
  then show ?thesis
    by (simp add: Object_keys_def removeItem_def delete_keys removeAll_filter_not_eq)
qed

lemma getAll_loop_skips_blank:
  assumes "getItem w sk = Some []"
  shows "getAll_loop P S T w keys rs =
         getAll_loop P S T (removeItem sk w) (filter (\<lambda>x. x \<noteq> sk) keys) rs"
proof (induction keys arbitrary: rs)
  case Nil
  show ?case by simp
next
  case (Cons key keys)
  show ?case
  proof (cases "key = sk")
    case True
    with assms Cons.IH show ?thesis by simp
  next
    case False
    with Cons.IH show ?thesis
      by (simp add: getItem_removeItem Let_def split: sum.splits)
  qed
qed

lemma prefix_storage_key: "prefix (table_prefix S T) (storage_key S T k)"
  by (simp add: table_prefix_def storage_key_def)

text \<open>
  Claim C10. When the medium holds the empty string at a storage key, \<^verbatim>\<open>exists\<close> is
  false for that key, \<^verbatim>\<open>get\<close> returns null whatever \<^verbatim>\<open>decrypt\<close> would do with the
  text, and \<^verbatim>\<open>getAll\<close> returns what it returns without that item: the item is
  skipped, the call is not aborted.
\<close>

theorem empty_item_is_absent:
  assumes "getItem w (storage_key S T k) = Some []"
  shows "\<not> exists_in S T k w \<and> get P S T k w = Inr JNull \<and>
         getAll P S T w = getAll P S T (removeItem (storage_key S T k) w)"
proof -
  have "filter (\<lambda>x. x \<noteq> storage_key S T k) (filter (prefix (table_prefix S T)) (Object_keys w)) =
        filter (prefix (table_prefix S T)) (Object_keys (removeItem (storage_key S T k) w))"
    by (simp add: Object_keys_removeItem conj_commute)
  with getAll_loop_skips_blank [OF assms, of P S T] assms show ?thesis
    by (simp add: exists_in_def get_def getAll_def)
qed

theorem empty_item_is_absent_witness:
  "getItem blank_world (storage_key demo_storage ''todos'' ''k'') = Some [] \<and>
   \<not> exists_in demo_storage ''todos'' ''k'' blank_world \<and>
   get demo_platform demo_storage ''todos'' ''k'' blank_world = Inr JNull \<and>
   getAll demo_platform demo_storage ''todos'' blank_world = Inr []"
proof -
  have sk: "storage_key demo_storage ''todos'' ''k'' = ''@edb_todos_k''"
    by (simp add: storage_key_def demo_storage_fields)
  have item: "getItem blank_world (storage_key demo_storage ''todos'' ''k'') = Some []"
    by (simp add: sk getItem_def blank_world_def)
  have "getAll demo_platform demo_storage ''todos'' (removeItem ''@edb_todos_k'' blank_world) = Inr []"
    by (simp add: getAll_def Object_keys_def removeItem_def blank_world_def)
  with empty_item_is_absent [OF item, of demo_platform] item show ?thesis
    by (simp add: sk)
qed

section \<open>Reading back what was stored\<close>

lemma getItem_setItem:
  "getItem (setItem sk item w) key = (if key = sk then Some item else getItem w key)"
  by (simp add: getItem_def setItem_def update_conv')

lemma getItem_getRandomValues [simp]:
  "getItem (snd (getRandomValues P n w)) key = getItem w key"
  by (simp add: getItem_def)

lemma parse_decrypted_roundtrip:
  assumes "encryptionKey S = Some k"
    and "cipher_roundtrip P k iv (JSON_stringify P v)"
    and "serializable P v"
    and "subtle_encrypt P k iv (TextEncoder_encode P (JSON_stringify P v)) = Some buffer"
  shows "parse_decrypted P S (JSON_stringify P (envelope iv (btoa P (fromCharCode buffer)))) = Inr v"
  using assms
  by (simp add: parse_decrypted_def cipher_roundtrip_def serializable_def decrypt_envelope)

lemma get_after_set_write:
  assumes "set_write P S T v fk w1 = (Inr r, w')"
    and "encryptionKey S = Some k"
    and "cipher_roundtrip P k (next_iv P w1) (JSON_stringify P v)"
    and "serializable P v"
  shows "get P S T fk w' = Inr v"
proof -
  from set_write_Inr [OF assms(1)] assms(2) obtain buffer where
    enc: "subtle_encrypt P k (next_iv P w1) (TextEncoder_encode P (JSON_stringify P v)) = Some buffer"
    and w': "w' = setItem (storage_key S T fk)
                   (JSON_stringify P (envelope (next_iv P w1) (btoa P (fromCharCode buffer))))
                   (snd (getRandomValues P 12 w1))"
    by auto
  from assms(3) enc have
    "JSON_stringify P (envelope (next_iv P w1) (btoa P (fromCharCode buffer))) \<noteq> []"
    by (simp add: cipher_roundtrip_def)
  with parse_decrypted_roundtrip [OF assms(2,3,4) enc] show ?thesis
    by (simp add: get_def w' getItem_setItem)
qed

text \<open>
  Claim C1. After \<^verbatim>\<open>set(T, V)\<close> has returned a stored value with key \<open>k\<close>,
  \<^verbatim>\<open>get(T, k)\<close> returns \<open>V\<close>: the text stored is the serialization of \<open>V\<close>,
  encrypted, and \<^verbatim>\<open>get\<close> decrypts it and parses it back. The platform is taken to
  keep its contracts at the nonce drawn, and \<open>V\<close> to be JSON-serializable.
\<close>

theorem get_after_set:
  assumes "set_value P S T v key w = Some (Inr r, w')"
    and "encryptionKey S = Some k"
    and "cipher_roundtrip P k (next_iv P w) (JSON_stringify P v)"
    and "serializable P v"
  shows "\<exists>recordKey. key_of r = Some recordKey \<and> get P S T recordKey w' = Inr v"
proof -
  from set_value_returns [OF assms(1)] obtain fk m where
    sw: "set_write P S T v fk (skip_uuids m w) = (Inr r, w')" by metis
  from set_write_Inr [OF sw] have "key_of r = Some fk" by simp
  moreover from assms(3) have "cipher_roundtrip P k (next_iv P (skip_uuids m w)) (JSON_stringify P v)"
    by simp
  from get_after_set_write [OF sw assms(2) this assms(4)] have "get P S T fk w' = Inr v" .
  ultimately show ?thesis by blast
qed

lemma demo_decode_encode: "demo_decode (demo_encode s) = s"
proof -
  have "char_of (unat (of_nat (of_char c) :: 8 word)) = c" for c :: char
    by (simp add: unat_of_nat)
  then show ?thesis by (simp add: demo_decode_def demo_encode_def comp_def map_idI)
qed

lemma demo_decrypt_encrypt:
  "demo_decrypt k iv (the (demo_encrypt k iv plain)) = Some plain"
  by (simp add: demo_decrypt_def demo_encrypt_def comp_def map_idI)

lemma next_iv_demo: "next_iv demo_platform w = demo_iv (rand_pos w)"
  by (simp add: next_iv_def getRandomValues_def demo_iv_def demo_fields)

lemma demo_cipher_roundtrip:
  assumes "demo_parse (demo_stringify (demo_envelope (rand_pos w) v)) = Some (demo_envelope (rand_pos w) v)"
  shows "cipher_roundtrip demo_platform demo_key (next_iv demo_platform w) (JSON_stringify demo_platform v)"
proof -
  let ?iv = "demo_iv (rand_pos w)" and ?plain = "demo_encode (demo_stringify v)"
  obtain buffer where enc: "demo_encrypt demo_key ?iv ?plain = Some buffer"
    by (simp add: demo_encrypt_def)
  then have env: "demo_envelope (rand_pos w) v = envelope ?iv (fromCharCode buffer)"
    by (simp add: demo_envelope_def)
  have dec: "demo_decrypt demo_key ?iv buffer = Some ?plain"
    using demo_decrypt_encrypt [of demo_key ?iv ?plain] enc by simp
  have "demo_stringify (envelope ?iv (fromCharCode buffer)) \<noteq> []"
    by (simp add: envelope_def)
  with assms enc dec show ?thesis
    by (simp add: cipher_roundtrip_def next_iv_demo demo_fields env demo_decode_encode)
qed

lemma demo_serializable: "serializable demo_platform demo_todo" "serializable demo_platform demo_note"
  by (simp_all add: serializable_def demo_fields demo_parse_docs)

theorem get_after_set_witness:
  "\<exists>r w'. set_value demo_platform demo_storage ''todos'' demo_todo None empty_world = Some (Inr r, w') \<and>
     key_of r = Some ''u0'' \<and> get demo_platform demo_storage ''todos'' ''u0'' w' = Inr demo_todo"
proof -
  have fresh: "\<not> exists_in demo_storage ''todos'' (nth_uuid demo_platform empty_world 0) empty_world"
    by (simp add: exists_in_def getItem_def empty_world_def)
  obtain r w' where "set_write demo_platform demo_storage ''todos'' demo_todo ''u0'' (skip_uuids (Suc 0) empty_world) = (Inr r, w')"
    and r: "r = with_key demo_todo ''u0''"
    using demo_set_write by blast
  with set_value_omitted_at [of 0 demo_storage "''todos''" demo_platform empty_world demo_todo] fresh
  have returns: "set_value demo_platform demo_storage ''todos'' demo_todo None empty_world = Some (Inr r, w')"
    by (simp add: demo_uuids)
  have "rand_pos empty_world = 0" by (simp add: empty_world_def)
  with demo_cipher_roundtrip [of empty_world demo_todo]
  have rt: "cipher_roundtrip demo_platform demo_key (next_iv demo_platform empty_world)
              (JSON_stringify demo_platform demo_todo)"
    by (simp add: demo_parse_docs)
  from get_after_set [OF returns demo_storage_fields(1) rt demo_serializable(1)] r returns
  show ?thesis by auto
qed

section \<open>Explicit keys\<close>

lemma demo_set_write_world:
  "\<exists>w'. set_write demo_platform demo_storage T v fk w = (Inr (with_key v fk), w') \<and>
     rand_pos w' = rand_pos w + 12 \<and> uuid_pos w' = uuid_pos w \<and>
     localStorage w' =
       AList.update (storage_key demo_storage T fk) (demo_stringify (demo_envelope (rand_pos w) v))
         (localStorage w)"
proof -
  let ?iv = "demo_iv (rand_pos w)" and ?plain = "demo_encode (demo_stringify v)"
  obtain buffer where enc: "demo_encrypt demo_key ?iv ?plain = Some buffer"
    by (simp add: demo_encrypt_def)
  then have env: "demo_envelope (rand_pos w) v = envelope ?iv (fromCharCode buffer)"
    by (simp add: demo_envelope_def)
  from enc have "subtle_encrypt demo_platform demo_key (next_iv demo_platform w)
          (TextEncoder_encode demo_platform (JSON_stringify demo_platform v)) = Some buffer"
    by (simp add: demo_fields next_iv_demo)
  moreover have "accepts_arguments demo_platform (length buffer)"
    by (simp add: demo_fields)
  ultimately have "set_write demo_platform demo_storage T v fk w =
     (Inr (with_key v fk),
      setItem (storage_key demo_storage T fk)
        (JSON_stringify demo_platform
           (envelope (next_iv demo_platform w) (btoa demo_platform (fromCharCode buffer))))
        (snd (getRandomValues demo_platform 12 w)))"
    by (rule set_write_success [OF demo_storage_fields(1)])
  then show ?thesis
    by (simp add: env next_iv_demo demo_fields getRandomValues_def setItem_def)
qed

lemma demo_get:
  assumes "getItem w (storage_key demo_storage T k) = Some (demo_stringify (demo_envelope pos v))"
    and "demo_parse (demo_stringify (demo_envelope pos v)) = Some (demo_envelope pos v)"
    and "serializable demo_platform v"
  shows "get demo_platform demo_storage T k w = Inr v"
proof -
  let ?w0 = "empty_world\<lparr>rand_pos := pos\<rparr>"
  let ?iv = "demo_iv pos" and ?plain = "demo_encode (demo_stringify v)"
  obtain buffer where enc: "demo_encrypt demo_key ?iv ?plain = Some buffer"
    by (simp add: demo_encrypt_def)
  then have env: "demo_envelope pos v = envelope ?iv (fromCharCode buffer)"
    by (simp add: demo_envelope_def)
  have rt: "cipher_roundtrip demo_platform demo_key ?iv (JSON_stringify demo_platform v)"
    using demo_cipher_roundtrip [of ?w0 v] assms(2) by (simp add: next_iv_demo)
  from enc have "subtle_encrypt demo_platform demo_key ?iv
          (TextEncoder_encode demo_platform (JSON_stringify demo_platform v)) = Some buffer"
    by (simp add: demo_fields)
  from parse_decrypted_roundtrip [OF demo_storage_fields(1) rt assms(3) this]
  have "parse_decrypted demo_platform demo_storage (demo_stringify (demo_envelope pos v)) = Inr v"
    by (simp add: env demo_fields)
  moreover have "demo_stringify (demo_envelope pos v) \<noteq> []"
    by (simp add: env envelope_def)
  ultimately show ?thesis
    using assms(1) by (simp add: get_def)
qed

lemma Object_keys_setItem:
  "Object_keys (setItem sk item w) =
     (if sk \<in> set (Object_keys w) then Object_keys w else Object_keys w @ [sk])"
  by (simp add: Object_keys_def setItem_def update_keys)

lemma Object_keys_getRandomValues [simp]:
  "Object_keys (snd (getRandomValues P n w)) = Object_keys w"
  by (simp add: Object_keys_def)

lemma uuid_pos_set_write:
  "set_write P S T v fk w1 = (res, w') \<Longrightarrow> uuid_pos w' = uuid_pos w1"
  by (auto simp: set_write_def encrypt_def getRandomValues_def setItem_def
      split: prod.splits sum.splits option.splits if_splits)

text \<open>
  Claim C4, amended. A call of \<^verbatim>\<open>set\<close> with an explicit key that is not the empty
  string writes under that key with no collision check and draws no UUID. After
  \<^verbatim>\<open>set(T, V1, k)\<close> and \<^verbatim>\<open>set(T, V2, k)\<close> both calls have returned the key \<open>k\<close>,
  \<^verbatim>\<open>get(T, k)\<close> returns \<open>V2\<close>, and the medium has the keys it had after the first
  call: the item was replaced in place.
\<close>

theorem explicit_key_upsert:
  assumes "k \<noteq> []"
    and "set_value P S T v1 (Some k) w = Some (Inr r1, w1)"
    and "set_value P S T v2 (Some k) w1 = Some (Inr r2, w2)"
    and "encryptionKey S = Some ck"
    and "cipher_roundtrip P ck (next_iv P w1) (JSON_stringify P v2)"
    and "serializable P v2"
  shows "key_of r1 = Some k \<and> key_of r2 = Some k \<and> get P S T k w2 = Inr v2 \<and>
         Object_keys w2 = Object_keys w1 \<and> uuid_pos w2 = uuid_pos w"
proof -
  from assms(1,2) have sw1: "set_write P S T v1 k w = (Inr r1, w1)"
    by (simp add: set_value_explicit)
  from assms(1,3) have sw2: "set_write P S T v2 k w1 = (Inr r2, w2)"
    by (simp add: set_value_explicit)
  from set_write_Inr [OF sw1] have r1: "key_of r1 = Some k"
    and in1: "storage_key S T k \<in> set (Object_keys w1)"
    by (auto simp: Object_keys_setItem)
  from set_write_Inr [OF sw2] in1 have r2: "key_of r2 = Some k"
    and keys: "Object_keys w2 = Object_keys w1"
    by (auto simp: Object_keys_setItem)
  from uuid_pos_set_write [OF sw1] uuid_pos_set_write [OF sw2]
  have "uuid_pos w2 = uuid_pos w" by simp
  with r1 r2 keys get_after_set_write [OF sw2 assms(4,5,6)] show ?thesis by simp
qed

theorem explicit_key_upsert_witness:
  "\<exists>r1 w1 r2 w2.
     set_value demo_platform demo_storage ''todos'' demo_todo (Some ''k'') empty_world = Some (Inr r1, w1) \<and>
     set_value demo_platform demo_storage ''todos'' demo_note (Some ''k'') w1 = Some (Inr r2, w2) \<and>
     get demo_platform demo_storage ''todos'' ''k'' w2 = Inr demo_note \<and>
     Object_keys w2 = [''@edb_todos_k'']"
proof -
  have ne: "''k'' \<noteq> []" by simp
  obtain w1 where sw1: "set_write demo_platform demo_storage ''todos'' demo_todo ''k'' empty_world =
      (Inr (with_key demo_todo ''k''), w1)"
    and p1: "rand_pos w1 = rand_pos empty_world + 12"
    and l1: "localStorage w1 = AList.update (storage_key demo_storage ''todos'' ''k'')
        (demo_stringify (demo_envelope (rand_pos empty_world) demo_todo)) (localStorage empty_world)"
    using demo_set_write_world [of "''todos''" demo_todo "''k''" empty_world] by blast
  obtain w2 where sw2: "set_write demo_platform demo_storage ''todos'' demo_note ''k'' w1 =
      (Inr (with_key demo_note ''k''), w2)"
    using demo_set_write_world [of "''todos''" demo_note "''k''" w1] by blast
  from sw1 have s1: "set_value demo_platform demo_storage ''todos'' demo_todo (Some ''k'') empty_world =
      Some (Inr (with_key demo_todo ''k''), w1)"
    by (simp add: set_value_explicit)
  from sw2 have s2: "set_value demo_platform demo_storage ''todos'' demo_note (Some ''k'') w1 =
      Some (Inr (with_key demo_note ''k''), w2)"
    by (simp add: set_value_explicit)
  from p1 have "rand_pos w1 = 12" by (simp add: empty_world_def)
  with demo_cipher_roundtrip [of w1 demo_note]
  have rt: "cipher_roundtrip demo_platform demo_key (next_iv demo_platform w1)
              (JSON_stringify demo_platform demo_note)"
    by (simp add: demo_parse_docs)
  from l1 have k1: "Object_keys w1 = [''@edb_todos_k'']"
    by (simp add: Object_keys_def storage_key_def demo_storage_fields empty_world_def)
  from explicit_key_upsert [OF ne s1 s2 demo_storage_fields(1) rt demo_serializable(2)] k1 s1 s2
  show ?thesis by auto
qed


lemma demo_uuid_at: "uuid_pos w = 0 \<Longrightarrow> nth_uuid demo_platform w 0 = ''u0''"
  "uuid_pos w = 1 \<Longrightarrow> nth_uuid demo_platform w 0 = ''u1''"
proof -
  have "''u'' @ show_nat 0 = ''u0''" "''u'' @ show_nat 1 = ''u1''" by code_simp+
  then show "uuid_pos w = 0 \<Longrightarrow> nth_uuid demo_platform w 0 = ''u0''"
    "uuid_pos w = 1 \<Longrightarrow> nth_uuid demo_platform w 0 = ''u1''"
    by (simp_all add: nth_uuid_def demo_fields)
qed

lemma demo_keys:
  "storage_key demo_storage ''todos'' k = ''@edb_todos_'' @ k"
  by (simp add: storage_key_def demo_storage_fields)

text \<open>
  Claim C4 as stated fails for the explicit key "". Two calls with that key return
  the keys u0 and u1; afterwards \<^verbatim>\<open>get(T, "")\<close> is null, so the second value is not
  retrievable at the key given, and the first value is still stored, under u0.
\<close>

theorem explicit_key_upsert_counterexample:
  "empty_key_first \<noteq> None \<and> empty_key_second \<noteq> None \<and>
   returned_key empty_key_first = Some ''u0'' \<and> returned_key empty_key_second = Some ''u1'' \<and>
   get demo_platform demo_storage ''todos'' [] (world_after empty_key_second) = Inr JNull \<and>
   get demo_platform demo_storage ''todos'' ''u0'' (world_after empty_key_second) = Inr demo_todo"
proof -
  obtain w1 where sw1: "set_write demo_platform demo_storage ''todos'' demo_todo ''u0''
        (skip_uuids (Suc 0) empty_world) = (Inr (with_key demo_todo ''u0''), w1)"
    and p1: "rand_pos w1 = rand_pos (skip_uuids (Suc 0) empty_world) + 12"
    and u1: "uuid_pos w1 = uuid_pos (skip_uuids (Suc 0) empty_world)"
    and l1: "localStorage w1 = AList.update (storage_key demo_storage ''todos'' ''u0'')
        (demo_stringify (demo_envelope (rand_pos (skip_uuids (Suc 0) empty_world)) demo_todo))
        (localStorage (skip_uuids (Suc 0) empty_world))"
    using demo_set_write_world [of "''todos''" demo_todo "''u0''" "skip_uuids (Suc 0) empty_world"]
    by blast
  have first: "empty_key_first = Some (Inr (with_key demo_todo ''u0''), w1)"
    using sw1 by (simp add: empty_key_first_def set_value_empty demo_uuid_at empty_world_def)
  from p1 have p1': "rand_pos w1 = 12" by (simp add: empty_world_def)
  from u1 have u1': "uuid_pos w1 = 1" by (simp add: empty_world_def)
  from l1 have l1': "localStorage w1 = [(''@edb_todos_u0'', demo_stringify (demo_envelope 0 demo_todo))]"
    by (simp add: demo_keys empty_world_def)
  obtain w2 where sw2: "set_write demo_platform demo_storage ''todos'' demo_note ''u1''
        (skip_uuids (Suc 0) w1) = (Inr (with_key demo_note ''u1''), w2)"
    and l2: "localStorage w2 = AList.update (storage_key demo_storage ''todos'' ''u1'')
        (demo_stringify (demo_envelope (rand_pos (skip_uuids (Suc 0) w1)) demo_note))
        (localStorage (skip_uuids (Suc 0) w1))"
    using demo_set_write_world [of "''todos''" demo_note "''u1''" "skip_uuids (Suc 0) w1"]
    by blast
  have second: "empty_key_second = Some (Inr (with_key demo_note ''u1''), w2)"
    using sw2 by (simp add: empty_key_second_def first world_after_def set_value_empty demo_uuid_at u1')
  from l2 have l2': "localStorage w2 =
      [(''@edb_todos_u0'', demo_stringify (demo_envelope 0 demo_todo)),
       (''@edb_todos_u1'', demo_stringify (demo_envelope 12 demo_note))]"
    by (simp add: demo_keys l1' p1')
  have absent: "get demo_platform demo_storage ''todos'' [] w2 = Inr JNull"
    by (simp add: get_def getItem_def l2' demo_keys)
  have "getItem w2 (storage_key demo_storage ''todos'' ''u0'') =
      Some (demo_stringify (demo_envelope 0 demo_todo))"
    by (simp add: getItem_def l2' demo_keys)
  from demo_get [OF this demo_parse_docs(4) demo_serializable(1)]
  have kept: "get demo_platform demo_storage ''todos'' ''u0'' w2 = Inr demo_todo" .
  from absent kept show ?thesis
    by (simp add: first second returned_key_def world_after_def)
qed

section \<open>Absent items and items that do not decrypt\<close>

lemma parse_decrypted_Inl:
  "decrypt P (encryptionKey S) item = Inl e \<Longrightarrow> parse_decrypted P S item = Inl e"
  by (simp add: parse_decrypted_def)

text \<open>
  Claim C5, amended. \<^verbatim>\<open>get(T, k)\<close> returns null, not an error, when the medium has
  no item at the storage key. When the item is there, its text is not empty and
  \<^verbatim>\<open>decrypt\<close> fails on it, \<^verbatim>\<open>get\<close> fails with that error. An error of \<^verbatim>\<open>get\<close>
  always comes from an item that is there with a text that is not empty, so an error
  is never the answer for an absent item.
\<close>

theorem get_absent_or_error:
  "(getItem w (storage_key S T k) = None \<longrightarrow> get P S T k w = Inr JNull) \<and>
   (\<forall>item e. getItem w (storage_key S T k) = Some item \<and> item \<noteq> [] \<and>
        decrypt P (encryptionKey S) item = Inl e \<longrightarrow> get P S T k w = Inl e) \<and>
   (\<forall>e. get P S T k w = Inl e \<longrightarrow>
        (\<exists>item. getItem w (storage_key S T k) = Some item \<and> item \<noteq> [] \<and>
           parse_decrypted P S item = Inl e))"
  by (cases "getItem w (storage_key S T k)") (auto simp: get_def parse_decrypted_Inl)

lemma demo_parse_empty: "demo_parse [] = None"
  by (simp add: demo_parse_def demo_docs_def demo_envelope_def envelope_def demo_todo_def
      demo_note_def)

lemma demo_decrypt_empty: "decrypt demo_platform (encryptionKey demo_storage) [] = Inl SyntaxError"
  by (simp add: decrypt_def demo_storage_fields demo_fields demo_parse_empty)

lemma other_mask: "demo_mask [9] (demo_iv 0) \<noteq> demo_mask demo_key (demo_iv 0)"
  by code_simp

lemma demo_wrong_key:
  "decrypt demo_platform (encryptionKey other_storage) (demo_stringify (demo_envelope 0 demo_todo)) =
     Inl OperationError"
proof -
  let ?iv = "demo_iv 0" and ?plain = "demo_encode (demo_stringify demo_todo)"
  define buffer where "buffer = map (\<lambda>b. b + demo_mask demo_key ?iv) ?plain @ [demo_mask demo_key ?iv]"
  have env: "demo_envelope 0 demo_todo = envelope ?iv (fromCharCode buffer)"
    by (simp add: demo_envelope_def demo_encrypt_def buffer_def)
  have "JSON_parse demo_platform (demo_stringify (demo_envelope 0 demo_todo)) =
        Some (envelope ?iv (btoa demo_platform (fromCharCode buffer)))"
    using demo_parse_docs(4) by (simp add: demo_fields env)
  moreover have "atob demo_platform (btoa demo_platform (fromCharCode buffer)) = Some (fromCharCode buffer)"
    by (simp add: demo_fields)
  moreover have "subtle_decrypt demo_platform [9] ?iv buffer = None"
    using other_mask by (simp add: demo_fields demo_decrypt_def buffer_def)
  ultimately show ?thesis
    using decrypt_envelope [of demo_platform "demo_stringify (demo_envelope 0 demo_todo)" ?iv buffer "[9]"]
    by (simp add: other_storage_def EncryptedStorage_def)
qed

lemma demo_text_nonempty: "demo_stringify (demo_envelope pos v) \<noteq> []"
  by (simp add: demo_envelope_def envelope_def)

lemma other_keys:
  "storage_key other_storage ''todos'' k = ''@edb_todos_'' @ k"
  "table_prefix other_storage ''todos'' = ''@edb_todos_''"
  "table_prefix demo_storage ''todos'' = ''@edb_todos_''"
  by (simp_all add: storage_key_def table_prefix_def other_storage_def EncryptedStorage_def
      demo_storage_fields)

theorem get_absent_or_error_witness:
  "getItem stored_world (storage_key other_storage ''todos'' ''zz'') = None \<and>
   get demo_platform other_storage ''todos'' ''zz'' stored_world = Inr JNull \<and>
   getItem stored_world (storage_key other_storage ''todos'' ''u0'') =
     Some (demo_stringify (demo_envelope 0 demo_todo)) \<and>
   demo_stringify (demo_envelope 0 demo_todo) \<noteq> [] \<and>
   decrypt demo_platform (encryptionKey other_storage) (demo_stringify (demo_envelope 0 demo_todo)) =
     Inl OperationError \<and>
   get demo_platform other_storage ''todos'' ''u0'' stored_world = Inl OperationError"
proof -
  have a: "getItem stored_world (storage_key other_storage ''todos'' ''zz'') = None"
    by (simp add: getItem_def stored_world_def other_keys)
  have b: "getItem stored_world (storage_key other_storage ''todos'' ''u0'') =
     Some (demo_stringify (demo_envelope 0 demo_todo))"
    by (simp add: getItem_def stored_world_def other_keys)
  from get_absent_or_error [of stored_world other_storage "''todos''" "''zz''" demo_platform] a
  have c: "get demo_platform other_storage ''todos'' ''zz'' stored_world = Inr JNull"
    by blast
  from get_absent_or_error [of stored_world other_storage "''todos''" "''u0''" demo_platform]
    b demo_text_nonempty demo_wrong_key
  have d: "get demo_platform other_storage ''todos'' ''u0'' stored_world = Inl OperationError"
    by blast
  from a b c d demo_text_nonempty demo_wrong_key show ?thesis by blast
qed

text \<open>
  Claim C5 as stated fails for an item whose text is the empty string: the item is
  there, \<^verbatim>\<open>decrypt\<close> fails on its text (it is not an envelope), and \<^verbatim>\<open>get\<close> returns
  null as for an absent item.
\<close>

theorem get_absent_or_error_counterexample:
  "getItem blank_world (storage_key demo_storage ''todos'' ''k'') = Some [] \<and>
   decrypt demo_platform (encryptionKey demo_storage) [] = Inl SyntaxError \<and>
   get demo_platform demo_storage ''todos'' ''k'' blank_world = Inr JNull"
  by (simp add: demo_decrypt_empty get_def getItem_def blank_world_def demo_keys)

section \<open>One bad record aborts the enumeration\<close>

lemma getAll_loop_fails:
  assumes "key \<in> set keys" "getItem w key = Some item" "item \<noteq> []"
    and "parse_decrypted P S item = Inl e"
  shows "\<exists>e' key' item'. getAll_loop P S T w keys rs = Inl e' \<and> key' \<in> set keys \<and>
            getItem w key' = Some item' \<and> item' \<noteq> [] \<and> parse_decrypted P S item' = Inl e'"
  using assms(1)
proof (induction keys arbitrary: rs)
  case Nil
  then show ?case by simp
next
  case (Cons x keys)
  show ?case
  proof (cases "truthy (getItem w x)")
    case False
    with Cons.prems assms(2,3) have "key \<in> set keys" by auto
    from Cons.IH [OF this] False show ?thesis by (simp add: Let_def) blast
  next
    case True
    then obtain xi where xi: "getItem w x = Some xi" "xi \<noteq> []"
      by (cases "getItem w x") auto
    show ?thesis
    proof (cases "parse_decrypted P S xi")
      case (Inl e0)
      with xi show ?thesis by (simp add: Let_def) blast
    next
      case (Inr j)
      with Cons.prems assms(2,4) xi have "key \<in> set keys" by auto
      from Cons.IH [OF this] xi Inr show ?thesis by (simp add: Let_def) blast
    qed
  qed
qed

text \<open>
  Claim C6, amended. If a key that \<^verbatim>\<open>getAll(T)\<close> enumerates holds a text that is not
  empty and does not decrypt, \<^verbatim>\<open>getAll(T)\<close> fails and so does \<^verbatim>\<open>filter(T, p)\<close>, with
  the same error and no partial result; the error is the one of an enumerated item
  with a text that is not empty.
\<close>

theorem getAll_aborts:
  assumes "key \<in> set (Object_keys w)" and "prefix (table_prefix S T) key"
    and "getItem w key = Some item" and "item \<noteq> []"
    and "decrypt P (encryptionKey S) item = Inl e"
  shows "\<exists>e'. getAll P S T w = Inl e' \<and> filter_items P S T p w = Inl e' \<and>
           (\<exists>key' item'. key' \<in> set (Object_keys w) \<and> prefix (table_prefix S T) key' \<and>
              getItem w key' = Some item' \<and> item' \<noteq> [] \<and> parse_decrypted P S item' = Inl e')"
proof -
  from assms(1,2) have "key \<in> set (filter (prefix (table_prefix S T)) (Object_keys w))"
    by simp
  from getAll_loop_fails [OF this assms(3,4) parse_decrypted_Inl [OF assms(5)], of T "[]"]
  obtain e' key' item' where
    loop: "getAll_loop P S T w (filter (prefix (table_prefix S T)) (Object_keys w)) [] = Inl e'"
    and bad: "key' \<in> set (filter (prefix (table_prefix S T)) (Object_keys w))"
      "getItem w key' = Some item'" "item' \<noteq> []" "parse_decrypted P S item' = Inl e'"
    by blast
  from loop have "getAll P S T w = Inl e'" "filter_items P S T p w = Inl e'"
    by (simp_all add: getAll_def filter_items_def)
  moreover from bad(1) have "key' \<in> set (Object_keys w)" "prefix (table_prefix S T) key'"
    by simp_all
  ultimately show ?thesis using bad(2,3,4) by blast
qed

theorem getAll_aborts_witness:
  "''@edb_todos_u0'' \<in> set (Object_keys stored_world) \<and>
   prefix (table_prefix other_storage ''todos'') ''@edb_todos_u0'' \<and>
   getItem stored_world ''@edb_todos_u0'' = Some (demo_stringify (demo_envelope 0 demo_todo)) \<and>
   decrypt demo_platform (encryptionKey other_storage) (demo_stringify (demo_envelope 0 demo_todo)) =
     Inl OperationError \<and>
   getAll demo_platform other_storage ''todos'' stored_world = Inl OperationError \<and>
   filter_items demo_platform other_storage ''todos'' (\<lambda>r. True) stored_world = Inl OperationError"
proof -
  have a: "''@edb_todos_u0'' \<in> set (Object_keys stored_world)"
    by (simp add: Object_keys_def stored_world_def)
  have b: "prefix (table_prefix other_storage ''todos'') ''@edb_todos_u0''"
    by (simp add: other_keys)
  have c: "getItem stored_world ''@edb_todos_u0'' = Some (demo_stringify (demo_envelope 0 demo_todo))"
    by (simp add: getItem_def stored_world_def)
  have only: "Object_keys stored_world = [''@edb_todos_u0'']"
    by (simp add: Object_keys_def stored_world_def)
  from getAll_aborts [OF a b c demo_text_nonempty demo_wrong_key, of "\<lambda>r. True"]
  obtain e' key' item' where r: "getAll demo_platform other_storage ''todos'' stored_world = Inl e'"
    "filter_items demo_platform other_storage ''todos'' (\<lambda>r. True) stored_world = Inl e'"
    and k: "key' \<in> set (Object_keys stored_world)" "getItem stored_world key' = Some item'"
    "parse_decrypted demo_platform other_storage item' = Inl e'"
    by blast
  from k(1,2) only c have "item' = demo_stringify (demo_envelope 0 demo_todo)" by simp
  with k(3) parse_decrypted_Inl [OF demo_wrong_key] have "e' = OperationError" by simp
  with r a b c demo_wrong_key show ?thesis by simp
qed

text \<open>
  Claim C6 as stated fails for an item whose text is the empty string: \<^verbatim>\<open>decrypt\<close>
  fails on that text, yet \<^verbatim>\<open>getAll\<close> skips the item and returns the other record.
\<close>

theorem getAll_aborts_counterexample:
  "''@edb_todos_k'' \<in> set (filter (prefix (table_prefix demo_storage ''todos'')) (Object_keys mixed_world)) \<and>
   getItem mixed_world ''@edb_todos_k'' = Some [] \<and>
   decrypt demo_platform (encryptionKey demo_storage) [] = Inl SyntaxError \<and>
   getAll demo_platform demo_storage ''todos'' mixed_world = Inr [with_key demo_todo ''u0'']"
proof -
  have "parse_decrypted demo_platform demo_storage (demo_stringify (demo_envelope 0 demo_todo)) =
      Inr demo_todo"
    using demo_get [of mixed_world "''todos''" "''u0''" 0 demo_todo] demo_parse_docs(4)
      demo_serializable(1) demo_text_nonempty [of 0 demo_todo]
    by (simp add: get_def getItem_def mixed_world_def demo_keys)
  then show ?thesis
    using demo_text_nonempty [of 0 demo_todo]
    by (simp add: getAll_def Object_keys_def getItem_def mixed_world_def other_keys
        demo_decrypt_empty)
qed

section \<open>Tables do not see each other\<close>

lemma demo_parse_decrypted_todo:
  "parse_decrypted demo_platform demo_storage (demo_stringify (demo_envelope 0 demo_todo)) = Inr demo_todo"
  using demo_get [of mixed_world "''todos''" "''u0''" 0 demo_todo] demo_parse_docs(4)
    demo_serializable(1) demo_text_nonempty [of 0 demo_todo]
  by (simp add: get_def getItem_def mixed_world_def demo_keys)

lemma getAll_loop_cong:
  "(\<And>key. key \<in> set keys \<Longrightarrow> getItem w' key = getItem w key) \<Longrightarrow>
   getAll_loop P S T w' keys rs = getAll_loop P S T w keys rs"
proof (induction keys arbitrary: rs)
  case Nil
  show ?case by simp
next
  case (Cons x keys)
  then show ?case by (simp add: Let_def split: sum.splits)
qed

lemma getAll_setItem_other:
  assumes "\<not> prefix (table_prefix S T) sk"
  shows "getAll P S T (setItem sk item w) = getAll P S T w"
proof -
  from assms have keys: "filter (prefix (table_prefix S T)) (Object_keys (setItem sk item w)) =
      filter (prefix (table_prefix S T)) (Object_keys w)"
    by (simp add: Object_keys_setItem)
  have "getAll_loop P S T (setItem sk item w) (filter (prefix (table_prefix S T)) (Object_keys w)) [] =
        getAll_loop P S T w (filter (prefix (table_prefix S T)) (Object_keys w)) []"
    using assms by (intro getAll_loop_cong) (auto simp: getItem_setItem)
  with keys show ?thesis by (simp add: getAll_def)
qed

lemma getAll_same_storage:
  "localStorage w' = localStorage w \<Longrightarrow> getAll P S T w' = getAll P S T w"
proof -
  assume l: "localStorage w' = localStorage w"
  then have "getAll_loop P S T w' keys [] = getAll_loop P S T w keys []" for keys
    by (intro getAll_loop_cong) (simp add: getItem_def)
  with l show ?thesis by (simp add: getAll_def Object_keys_def)
qed

lemma set_write_storage:
  assumes "set_write P S T v fk w1 = (res, w')"
  shows "localStorage w' = localStorage w1 \<or>
         (\<exists>item. localStorage w' = localStorage (setItem (storage_key S T fk) item w1))"
  using assms
  by (auto simp: set_write_def encrypt_def getRandomValues_def setItem_def
      split: prod.splits sum.splits option.splits if_splits)

lemma prefix_append_cases: "prefix xs (ys @ zs) \<Longrightarrow> prefix xs ys \<or> prefix ys xs"
  by (auto simp: prefix_append)

lemma table_prefix_of_key:
  "prefix (table_prefix S B) (storage_key S A k) \<Longrightarrow>
     prefix (B @ ''_'') (A @ ''_'') \<or> prefix (A @ ''_'') (B @ ''_'')"
proof -
  assume "prefix (table_prefix S B) (storage_key S A k)"
  then have "prefix (prefix_of S @ ''_'' @ (B @ ''_'')) (prefix_of S @ ''_'' @ (A @ ''_'') @ k)"
    by (simp add: table_prefix_def storage_key_def)
  then have "prefix (B @ ''_'') ((A @ ''_'') @ k)"
    by (simp only: same_prefix_prefix)
  then show ?thesis by (rule prefix_append_cases)
qed

lemma overlapping_tables_share_key:
  assumes "prefix (B @ ''_'') (A @ ''_'') \<or> prefix (A @ ''_'') (B @ ''_'')"
  shows "\<exists>k k'. storage_key S A k = storage_key S B k'"
  using assms
proof
  assume "prefix (B @ ''_'') (A @ ''_'')"
  then obtain zs where "A @ ''_'' = (B @ ''_'') @ zs" by (auto simp: prefix_def)
  then have "storage_key S A [] = storage_key S B zs"
    by (simp add: storage_key_def)
  then show ?thesis by blast
next
  assume "prefix (A @ ''_'') (B @ ''_'')"
  then obtain zs where "B @ ''_'' = (A @ ''_'') @ zs" by (auto simp: prefix_def)
  then have "storage_key S A zs = storage_key S B []"
    by (simp add: storage_key_def)
  then show ?thesis by blast
qed

lemma disjoint_tables:
  assumes "\<not> prefix (A @ ''_'') (B @ ''_'')" and "\<not> prefix (B @ ''_'') (A @ ''_'')"
  shows "storage_key S A k \<noteq> storage_key S B k'"
proof
  assume "storage_key S A k = storage_key S B k'"
  then have "prefix (table_prefix S B) (storage_key S A k)"
    by (simp add: table_prefix_def storage_key_def)
  from table_prefix_of_key [OF this] assms show False by blast
qed

lemma set_value_other_table:
  assumes "\<not> prefix (A @ ''_'') (B @ ''_'')" and "\<not> prefix (B @ ''_'') (A @ ''_'')"
    and "set_value P S A v key w = Some (res, w')"
  shows "getAll P S B w' = getAll P S B w"
proof -
  from set_value_returns [OF assms(3)] obtain fk m where
    sw: "set_write P S A v fk (skip_uuids m w) = (res, w')" by metis
  have other: "\<not> prefix (table_prefix S B) (storage_key S A fk)"
    using table_prefix_of_key [of S B A fk] assms(1,2) by blast
  from set_write_storage [OF sw] show ?thesis
  proof
    assume "localStorage w' = localStorage (skip_uuids m w)"
    then have "localStorage w' = localStorage w" by simp
    then show ?thesis by (rule getAll_same_storage)
  next
    assume "\<exists>item. localStorage w' = localStorage (setItem (storage_key S A fk) item (skip_uuids m w))"
    then obtain item where
      "localStorage w' = localStorage (setItem (storage_key S A fk) item w)"
      by (auto simp: setItem_def)
    then have "getAll P S B w' = getAll P S B (setItem (storage_key S A fk) item w)"
      by (rule getAll_same_storage)
    with getAll_setItem_other [OF other] show ?thesis by simp
  qed
qed

text \<open>
  Claim C2, amended. For two table names \<open>A\<close> and \<open>B\<close> such that neither \<open>A_\<close> nor
  \<open>B_\<close> is a prefix of the other (so \<open>A\<close> and \<open>B\<close> differ), a call of \<^verbatim>\<open>set\<close> under
  \<open>A\<close> leaves the result of \<^verbatim>\<open>getAll(B)\<close> as it was, whatever the record key. The
  storage keys of \<open>A\<close> and of \<open>B\<close> never coincide exactly when the two names are so
  related, and a storage key of \<open>A\<close> determines the record key.
\<close>

theorem table_isolation:
  "(\<not> prefix (A @ ''_'') (B @ ''_'') \<and> \<not> prefix (B @ ''_'') (A @ ''_'') \<and>
      set_value P S A v key w = Some (res, w') \<longrightarrow> getAll P S B w' = getAll P S B w) \<and>
   ((\<forall>k k'. storage_key S A k \<noteq> storage_key S B k') \<longleftrightarrow>
      \<not> prefix (A @ ''_'') (B @ ''_'') \<and> \<not> prefix (B @ ''_'') (A @ ''_'')) \<and>
   (\<forall>k k'. storage_key S A k = storage_key S A k' \<longrightarrow> k = k')"
proof (intro conjI impI allI)
  assume "\<not> prefix (A @ ''_'') (B @ ''_'') \<and> \<not> prefix (B @ ''_'') (A @ ''_'') \<and>
      set_value P S A v key w = Some (res, w')"
  then show "getAll P S B w' = getAll P S B w"
    using set_value_other_table by blast
next
  show "(\<forall>k k'. storage_key S A k \<noteq> storage_key S B k') \<longleftrightarrow>
      \<not> prefix (A @ ''_'') (B @ ''_'') \<and> \<not> prefix (B @ ''_'') (A @ ''_'')"
    using overlapping_tables_share_key [of B A S] disjoint_tables [of A B S] by blast
next
  fix k k'
  assume "storage_key S A k = storage_key S A k'"
  then show "k = k'" by (simp add: storage_key_def)
qed

theorem table_isolation_witness:
  "\<not> prefix (''todo_items'' @ ''_'') (''user_profiles'' @ ''_'') \<and>
   \<not> prefix (''user_profiles'' @ ''_'') (''todo_items'' @ ''_'') \<and>
   (\<exists>res w'. set_value demo_platform demo_storage ''todo_items'' demo_note (Some ''n1'') profiles_world =
       Some (res, w') \<and>
     getAll demo_platform demo_storage ''user_profiles'' w' = Inr [with_key demo_todo ''u0''])"
proof -
  have a: "\<not> prefix (''todo_items'' @ ''_'') (''user_profiles'' @ ''_'')"
    and b: "\<not> prefix (''user_profiles'' @ ''_'') (''todo_items'' @ ''_'')"
    by simp_all
  obtain res w' where s: "set_value demo_platform demo_storage ''todo_items'' demo_note (Some ''n1'')
       profiles_world = Some (res, w')"
    by (cases "set_write demo_platform demo_storage ''todo_items'' demo_note ''n1'' profiles_world")
       (simp add: set_value_explicit)
  have before: "getAll demo_platform demo_storage ''user_profiles'' profiles_world =
      Inr [with_key demo_todo ''u0'']"
    using demo_text_nonempty [of 0 demo_todo]
    by (simp add: getAll_def Object_keys_def getItem_def profiles_world_def table_prefix_def
        demo_storage_fields demo_parse_decrypted_todo)
  from table_isolation [of "''todo_items''" "''user_profiles''" demo_platform demo_storage demo_note
      "Some ''n1''" profiles_world res w', THEN conjunct1] a b s
  have "getAll demo_platform demo_storage ''user_profiles'' w' =
        getAll demo_platform demo_storage ''user_profiles'' profiles_world"
    by blast
  with before a b s show ?thesis by auto
qed

text \<open>
  Claim C2 as stated fails when one table name followed by an underscore is a prefix
  of the other: the storage key of record \<open>k\<close> of table \<open>a_b\<close> is the storage key of
  record \<open>b_k\<close> of table \<open>a\<close>, and \<^verbatim>\<open>getAll("a")\<close> returns the record that was set
  under \<open>a_b\<close>, with the key \<open>b_k\<close>.
\<close>

theorem table_isolation_counterexample:
  "''a_b'' \<noteq> ''a'' \<and> underscore_set \<noteq> None \<and> returned_key underscore_set = Some ''k'' \<and>
   storage_key demo_storage ''a_b'' ''k'' = storage_key demo_storage ''a'' ''b_k'' \<and>
   getAll demo_platform demo_storage ''a'' (world_after underscore_set) = Inr [with_key demo_todo ''b_k'']"
proof -
  obtain w1 where sw: "set_write demo_platform demo_storage ''a_b'' demo_todo ''k'' empty_world =
      (Inr (with_key demo_todo ''k''), w1)"
    and l1: "localStorage w1 = AList.update (storage_key demo_storage ''a_b'' ''k'')
        (demo_stringify (demo_envelope (rand_pos empty_world) demo_todo)) (localStorage empty_world)"
    using demo_set_write_world [of "''a_b''" demo_todo "''k''" empty_world] by blast
  have run: "underscore_set = Some (Inr (with_key demo_todo ''k''), w1)"
    using sw by (simp add: underscore_set_def set_value_explicit)
  from l1 have l: "localStorage w1 = [(''@edb_a_b_k'', demo_stringify (demo_envelope 0 demo_todo))]"
    by (simp add: storage_key_def demo_storage_fields empty_world_def)
  have "getAll demo_platform demo_storage ''a'' w1 = Inr [with_key demo_todo ''b_k'']"
    using demo_text_nonempty [of 0 demo_todo]
    by (simp add: getAll_def Object_keys_def getItem_def l table_prefix_def demo_storage_fields
        demo_parse_decrypted_todo)
  then show ?thesis
    by (simp add: run returned_key_def world_after_def storage_key_def)
qed

section \<open>One nonce for each call of encrypt\<close>

lemma encrypt_Inr:
  assumes "encrypt P (Some k) data w = (Inr t, w1)"
  shows "\<exists>buffer. subtle_encrypt P k (next_iv P w) (TextEncoder_encode P data) = Some buffer \<and>
           t = JSON_stringify P (envelope (next_iv P w) (btoa P (fromCharCode buffer))) \<and>
           w1 = w\<lparr>rand_pos := rand_pos w + 12\<rparr>"
  using assms
  by (auto simp: encrypt_def next_iv_def getRandomValues_def split: option.splits if_splits)

lemma envelope_inject: "envelope iv d = envelope iv' d' \<longleftrightarrow> iv = iv' \<and> d = d'"
proof -
  have "inj (\<lambda>b :: 8 word. JNum (uint b))"
    by (rule injI) (simp add: word_uint_eq_iff)
  then have "map (\<lambda>b :: 8 word. JNum (uint b)) iv = map (\<lambda>b. JNum (uint b)) iv' \<longleftrightarrow> iv = iv'"
    by (simp add: inj_map_eq_map)
  then show ?thesis by (auto simp: envelope_def Array_from_def)
qed

lemma demo_encrypt_call:
  "encrypt demo_platform (Some demo_key) (demo_stringify v) w =
     (Inr (demo_stringify (demo_envelope (rand_pos w) v)), w\<lparr>rand_pos := rand_pos w + 12\<rparr>)"
proof -
  let ?iv = "demo_iv (rand_pos w)" and ?plain = "demo_encode (demo_stringify v)"
  obtain buffer where enc: "demo_encrypt demo_key ?iv ?plain = Some buffer"
    by (simp add: demo_encrypt_def)
  then have env: "demo_envelope (rand_pos w) v = envelope ?iv (fromCharCode buffer)"
    by (simp add: demo_envelope_def)
  have "getRandomValues demo_platform 12 w = (?iv, w\<lparr>rand_pos := rand_pos w + 12\<rparr>)"
    by (simp add: getRandomValues_def demo_iv_def demo_fields)
  with enc show ?thesis
    by (simp add: encrypt_def demo_fields env)
qed

text \<open>
  Claim C8. Every call of \<^verbatim>\<open>encrypt\<close> draws its nonce from the random source: the
  next 12 bytes (96 bits) of it, which become the field \<open>iv\<close> of the envelope, so two
  calls, one after the other, read two draws. When the two draws differ, the two
  envelopes of one plaintext under one key differ.
\<close>

theorem nonce_per_call:
  assumes "encrypt P (Some k) data w = (Inr t1, w1)"
    and "encrypt P (Some k) data w1 = (Inr t2, w2)"
    and "cipher_roundtrip P k (map (random_byte P) [rand_pos w ..< rand_pos w + 12]) data"
    and "cipher_roundtrip P k (map (random_byte P) [rand_pos w + 12 ..< rand_pos w + 24]) data"
    and "map (random_byte P) [rand_pos w ..< rand_pos w + 12] \<noteq>
         map (random_byte P) [rand_pos w + 12 ..< rand_pos w + 24]"
  shows "t1 \<noteq> t2 \<and>
         (\<exists>d1. t1 = JSON_stringify P
            (JObj [(''iv'', JArr (map (\<lambda>b. JNum (uint b))
                      (map (random_byte P) [rand_pos w ..< rand_pos w + 12]))),
                   (''data'', JStr d1)])) \<and>
         (\<exists>d2. t2 = JSON_stringify P
            (JObj [(''iv'', JArr (map (\<lambda>b. JNum (uint b))
                      (map (random_byte P) [rand_pos w + 12 ..< rand_pos w + 24]))),
                   (''data'', JStr d2)])) \<and>
         length (map (random_byte P) [rand_pos w ..< rand_pos w + 12]) = 12 \<and>
         length (map (random_byte P) [rand_pos w + 12 ..< rand_pos w + 24]) = 12 \<and>
         rand_pos w1 = rand_pos w + 12 \<and> rand_pos w2 = rand_pos w + 24"
proof -
  let ?iv1 = "map (random_byte P) [rand_pos w ..< rand_pos w + 12]"
  let ?iv2 = "map (random_byte P) [rand_pos w + 12 ..< rand_pos w + 24]"
  from encrypt_Inr [OF assms(1)] obtain b1 where
    e1: "subtle_encrypt P k ?iv1 (TextEncoder_encode P data) = Some b1"
    and t1: "t1 = JSON_stringify P (envelope ?iv1 (btoa P (fromCharCode b1)))"
    and w1: "w1 = w\<lparr>rand_pos := rand_pos w + 12\<rparr>"
    by (auto simp: next_iv_eq)
  have iv2: "next_iv P w1 = ?iv2"
    by (simp add: next_iv_eq w1 add.commute)
  from encrypt_Inr [OF assms(2)] obtain b2 where
    e2: "subtle_encrypt P k ?iv2 (TextEncoder_encode P data) = Some b2"
    and t2: "t2 = JSON_stringify P (envelope ?iv2 (btoa P (fromCharCode b2)))"
    and w2: "w2 = w1\<lparr>rand_pos := rand_pos w1 + 12\<rparr>"
    by (auto simp: iv2)
  from assms(3) e1 t1 have p1: "JSON_parse P t1 = Some (envelope ?iv1 (btoa P (fromCharCode b1)))"
    by (simp add: cipher_roundtrip_def)
  from assms(4) e2 t2 have p2: "JSON_parse P t2 = Some (envelope ?iv2 (btoa P (fromCharCode b2)))"
    by (simp add: cipher_roundtrip_def)
  have differ: "t1 \<noteq> t2"
  proof
    assume "t1 = t2"
    with p1 p2 have "envelope ?iv1 (btoa P (fromCharCode b1)) = envelope ?iv2 (btoa P (fromCharCode b2))"
      by simp
    with assms(5) show False by (simp only: envelope_inject) simp
  qed
  have f1: "\<exists>d1. t1 = JSON_stringify P
            (JObj [(''iv'', JArr (map (\<lambda>b. JNum (uint b)) ?iv1)), (''data'', JStr d1)])"
    unfolding t1 envelope_def Array_from_def by blast
  have f2: "\<exists>d2. t2 = JSON_stringify P
            (JObj [(''iv'', JArr (map (\<lambda>b. JNum (uint b)) ?iv2)), (''data'', JStr d2)])"
    unfolding t2 envelope_def Array_from_def by blast
  have "rand_pos w1 = rand_pos w + 12" "rand_pos w2 = rand_pos w + 24"
    by (simp_all add: w1 w2)
  with differ f1 f2 show ?thesis by simp
qed

theorem nonce_per_call_witness:
  "next_iv demo_platform later_world = map of_nat [24 ..< 36] \<and>
   (\<exists>t1 t2 w1 w2.
     encrypt demo_platform (Some demo_key) (demo_stringify demo_todo) later_world = (Inr t1, w1) \<and>
     encrypt demo_platform (Some demo_key) (demo_stringify demo_todo) w1 = (Inr t2, w2) \<and>
     next_iv demo_platform w1 = map of_nat [36 ..< 48] \<and> t1 \<noteq> t2 \<and> rand_pos w2 = 48)"
proof -
  define w1 where "w1 = later_world\<lparr>rand_pos := rand_pos later_world + 12\<rparr>"
  define w2 where "w2 = w1\<lparr>rand_pos := rand_pos w1 + 12\<rparr>"
  have p: "rand_pos later_world = 24" "rand_pos w1 = 36"
    by (simp_all add: w1_def later_world_def)
  have e1: "encrypt demo_platform (Some demo_key) (demo_stringify demo_todo) later_world =
      (Inr (demo_stringify (demo_envelope 24 demo_todo)), w1)"
    using demo_encrypt_call [of demo_todo later_world] by (simp add: p w1_def)
  have e2: "encrypt demo_platform (Some demo_key) (demo_stringify demo_todo) w1 =
      (Inr (demo_stringify (demo_envelope 36 demo_todo)), w2)"
    using demo_encrypt_call [of demo_todo w1] by (simp add: p w2_def)
  have n1: "next_iv demo_platform later_world = map of_nat [24 ..< 36]"
    by (simp add: next_iv_eq demo_fields p)
  have n2: "next_iv demo_platform w1 = map of_nat [36 ..< 48]"
    by (simp add: next_iv_eq demo_fields p)
  have r1: "cipher_roundtrip demo_platform demo_key
      (map (random_byte demo_platform) [rand_pos later_world ..< rand_pos later_world + 12])
      (demo_stringify demo_todo)"
    using demo_cipher_roundtrip [of later_world demo_todo] demo_parse_docs(2)
    by (simp add: p demo_fields next_iv_eq)
  have r2: "cipher_roundtrip demo_platform demo_key
      (map (random_byte demo_platform) [rand_pos later_world + 12 ..< rand_pos later_world + 24])
      (demo_stringify demo_todo)"
    using demo_cipher_roundtrip [of w1 demo_todo] demo_parse_docs(1)
    by (simp add: p demo_fields next_iv_eq)
  have "(of_nat 24 :: 8 word) \<noteq> of_nat 36" by simp
  then have d: "map (random_byte demo_platform) [rand_pos later_world ..< rand_pos later_world + 12] \<noteq>
      map (random_byte demo_platform) [rand_pos later_world + 12 ..< rand_pos later_world + 24]"
    by (simp add: p demo_fields upt_rec [of 24] upt_rec [of 36])
  from nonce_per_call [OF e1 e2 r1 r2 d] have "demo_stringify (demo_envelope 24 demo_todo) \<noteq>
      demo_stringify (demo_envelope 36 demo_todo)" and "rand_pos w2 = rand_pos later_world + 24"
    by blast+
  with e1 e2 n1 n2 p show ?thesis by auto
qed

section \<open>Keys generated by set\<close>

lemma storage_key_inject [simp]: "storage_key S T k = storage_key S T k' \<longleftrightarrow> k = k'"
  by (simp add: storage_key_def)

lemma get_cong:
  "getItem w' (storage_key S T k) = getItem w (storage_key S T k) \<Longrightarrow> get P S T k w' = get P S T k w"
  by (simp add: get_def)

lemma set_value_omitted_effect:
  assumes "set_value P S T v None w = Some (Inr r, w1)"
    and "encryptionKey S = Some ck"
    and "cipher_roundtrip P ck (next_iv P w) (JSON_stringify P v)"
    and "serializable P v"
  shows "\<exists>k item. key_of r = Some k \<and> \<not> exists_in S T k w \<and> item \<noteq> [] \<and>
           rand_pos w1 = rand_pos w + 12 \<and> get P S T k w1 = Inr v \<and>
           (\<forall>key. getItem w1 key = (if key = storage_key S T k then Some item else getItem w key))"
proof -
  from set_value_returns [OF assms(1)] obtain fk m where
    sw: "set_write P S T v fk (skip_uuids m w) = (Inr r, w1)" and fresh: "\<not> exists_in S T fk w"
    by (metis (no_types))
  have rt: "cipher_roundtrip P ck (next_iv P (skip_uuids m w)) (JSON_stringify P v)"
    using assms(3) by simp
  from set_write_Inr [OF sw] assms(2) obtain buffer where
    r: "r = with_key v fk"
    and enc: "subtle_encrypt P ck (next_iv P w) (TextEncoder_encode P (JSON_stringify P v)) = Some buffer"
    and w1: "w1 = setItem (storage_key S T fk)
                   (JSON_stringify P (envelope (next_iv P w) (btoa P (fromCharCode buffer))))
                   (snd (getRandomValues P 12 (skip_uuids m w)))"
    by auto
  let ?item = "JSON_stringify P (envelope (next_iv P w) (btoa P (fromCharCode buffer)))"
  from assms(3) enc have ne: "?item \<noteq> []"
    by (simp add: cipher_roundtrip_def)
  have pos: "rand_pos w1 = rand_pos w + 12"
    by (simp add: w1 setItem_def getRandomValues_def)
  have items: "\<forall>key. getItem w1 key = (if key = storage_key S T fk then Some ?item else getItem w key)"
    by (simp add: w1 getItem_setItem)
  from get_after_set_write [OF sw assms(2) rt assms(4)] r fresh ne pos items
  show ?thesis by (intro exI [of _ fk] exI [of _ ?item]) simp
qed

lemma set_each_Cons:
  assumes "set_each P S T (v # vs) w = Some (Inr rs, w')"
  obtains r w1 rs' where "set_value P S T v None w = Some (Inr r, w1)"
    and "set_each P S T vs w1 = Some (Inr rs', w')" and "rs = r # rs'"
  using assms
  by (auto split: option.splits prod.splits sum.splits)

lemma set_each_unique:
  assumes "encryptionKey S = Some ck"
  shows "set_each P S T vs w = Some (Inr rs, w') \<Longrightarrow> contracts_hold P ck (rand_pos w) vs \<Longrightarrow>
     list_all2 (\<lambda>r v. \<exists>k. key_of r = Some k \<and> \<not> exists_in S T k w \<and> get P S T k w' = Inr v) rs vs \<and>
     distinct (map key_of rs) \<and>
     (\<forall>k. exists_in S T k w \<longrightarrow> getItem w' (storage_key S T k) = getItem w (storage_key S T k))"
proof (induction vs arbitrary: w rs)
  case Nil
  then show ?case by simp
next
  case (Cons v vs)
  from Cons.prems(1) obtain r w1 rs' where
    first: "set_value P S T v None w = Some (Inr r, w1)"
    and rest: "set_each P S T vs w1 = Some (Inr rs', w')" and rs: "rs = r # rs'"
    by (rule set_each_Cons)
  from Cons.prems(2) have rt: "cipher_roundtrip P ck (next_iv P w) (JSON_stringify P v)"
    and ser: "serializable P v" and later: "contracts_hold P ck (rand_pos w + 12) vs"
    by (simp_all add: next_iv_eq)
  from set_value_omitted_effect [OF first assms rt ser] obtain k0 item where
    k0: "key_of r = Some k0" and fresh: "\<not> exists_in S T k0 w" and ne: "item \<noteq> []"
    and pos: "rand_pos w1 = rand_pos w + 12" and got: "get P S T k0 w1 = Inr v"
    and items: "\<And>key. getItem w1 key = (if key = storage_key S T k0 then Some item else getItem w key)"
    by blast
  from later pos have "contracts_hold P ck (rand_pos w1) vs" by simp
  from Cons.IH [OF rest this] have
    all: "list_all2 (\<lambda>r v. \<exists>k. key_of r = Some k \<and> \<not> exists_in S T k w1 \<and> get P S T k w' = Inr v) rs' vs"
    and dist: "distinct (map key_of rs')"
    and frame: "\<And>k. exists_in S T k w1 \<Longrightarrow> getItem w' (storage_key S T k) = getItem w1 (storage_key S T k)"
    by blast+
  have taken: "exists_in S T k0 w1"
    using ne by (simp add: exists_in_def items)
  have grows: "exists_in S T k w \<Longrightarrow> exists_in S T k w1" for k
    using ne by (simp add: exists_in_def items)
  have head: "get P S T k0 w' = Inr v"
    using get_cong [OF frame [OF taken], of P] got by simp
  have tail: "list_all2 (\<lambda>r v. \<exists>k. key_of r = Some k \<and> \<not> exists_in S T k w \<and> get P S T k w' = Inr v) rs' vs"
    using grows by (intro list_all2_mono [OF all]) blast
  have "Some k0 \<notin> set (map key_of rs')"
  proof
    assume "Some k0 \<in> set (map key_of rs')"
    then obtain r' where r': "r' \<in> set rs'" "key_of r' = Some k0" by auto
    then obtain i where "i < length rs'" "rs' ! i = r'" by (auto simp: in_set_conv_nth)
    with all have "\<exists>k. key_of r' = Some k \<and> \<not> exists_in S T k w1"
      by (auto simp: list_all2_conv_all_nth)
    with r'(2) taken show False by simp
  qed
  with dist k0 have d: "distinct (map key_of rs)" by (simp add: rs)
  have f: "\<forall>k. exists_in S T k w \<longrightarrow> getItem w' (storage_key S T k) = getItem w (storage_key S T k)"
  proof (intro allI impI)
    fix k
    assume e: "exists_in S T k w"
    with fresh have "k \<noteq> k0" by auto
    then have "getItem w1 (storage_key S T k) = getItem w (storage_key S T k)"
      by (simp add: items)
    with frame [OF grows [OF e]] show "getItem w' (storage_key S T k) = getItem w (storage_key S T k)"
      by simp
  qed
  from k0 fresh head tail d f show ?case
    by (simp add: rs)
qed

text \<open>
  Claim C3, amended. With no key given, \<^verbatim>\<open>set\<close> draws a UUID and retries with the
  next one if and only if \<^verbatim>\<open>exists\<close> is true for it, that is, an item with a text
  that is not empty is stored under it; it returns as soon as the random source gives
  a UUID that is free. With a key given there is no retry: the call writes at once.
  When \<open>N\<close> calls with no key, made one after the other, have all returned a stored
  value, the \<open>N\<close> keys are distinct and \<^verbatim>\<open>get\<close> returns each value at its key.
\<close>

theorem omitted_key_unique:
  assumes "encryptionKey S = Some ck"
    and "contracts_hold P ck (rand_pos w) vs"
    and "set_each P S T vs w = Some (Inr rs, w')"
  shows "(\<forall>v w0. set_value P S T v None w0 =
            (if exists_in S T (random_uuid P (uuid_pos w0)) w0
             then set_value P S T v None (w0\<lparr>uuid_pos := Suc (uuid_pos w0)\<rparr>)
             else Some (set_write P S T v (random_uuid P (uuid_pos w0))
                          (w0\<lparr>uuid_pos := Suc (uuid_pos w0)\<rparr>)))) \<and>
         (\<forall>v k w0. set_value P S T v (Some k) w0 =
            Some (set_write P S T v (fst (finalKey_of P (Some k) w0)) (snd (finalKey_of P (Some k) w0)))) \<and>
         (\<forall>v w0 n. (\<forall>i<n. exists_in S T (random_uuid P (uuid_pos w0 + i)) w0) \<and>
              \<not> exists_in S T (random_uuid P (uuid_pos w0 + n)) w0 \<longrightarrow>
            set_value P S T v None w0 =
              Some (set_write P S T v (random_uuid P (uuid_pos w0 + n))
                      (w0\<lparr>uuid_pos := uuid_pos w0 + Suc n\<rparr>))) \<and>
         length rs = length vs \<and> distinct (map key_of rs) \<and>
         (\<forall>i<length vs. \<exists>k. key_of (rs ! i) = Some k \<and> get P S T k w' = Inr (vs ! i))"
proof (intro conjI allI)
  fix v w0
  show "set_value P S T v None w0 =
            (if exists_in S T (random_uuid P (uuid_pos w0)) w0
             then set_value P S T v None (w0\<lparr>uuid_pos := Suc (uuid_pos w0)\<rparr>)
             else Some (set_write P S T v (random_uuid P (uuid_pos w0))
                          (w0\<lparr>uuid_pos := Suc (uuid_pos w0)\<rparr>)))"
    using set_value_omitted [of P S T v w0] by (simp add: nth_uuid_def skip_uuids_Suc0)
next
  fix v k w0
  show "set_value P S T v (Some k) w0 =
            Some (set_write P S T v (fst (finalKey_of P (Some k) w0)) (snd (finalKey_of P (Some k) w0)))"
    by (cases "k = []")
       (simp_all add: set_value_explicit set_value_empty finalKey_of_def randomUUID_def nth_uuid_def
          skip_uuids_Suc0)
next
  fix v w0 n
  show "(\<forall>i<n. exists_in S T (random_uuid P (uuid_pos w0 + i)) w0) \<and>
              \<not> exists_in S T (random_uuid P (uuid_pos w0 + n)) w0 \<longrightarrow>
            set_value P S T v None w0 =
              Some (set_write P S T v (random_uuid P (uuid_pos w0 + n))
                      (w0\<lparr>uuid_pos := uuid_pos w0 + Suc n\<rparr>))"
    using set_value_omitted_at [of n S T P w0 v] by (simp add: nth_uuid_def skip_uuids_def)
next
  note u = set_each_unique [OF assms(1,3,2)]
  from u show "length rs = length vs" by (auto dest: list_all2_lengthD)
next
  note u = set_each_unique [OF assms(1,3,2)]
  from u show "distinct (map key_of rs)" by simp
next
  fix i
  note u = set_each_unique [OF assms(1,3,2)]
  from u show "i < length vs \<longrightarrow> (\<exists>k. key_of (rs ! i) = Some k \<and> get P S T k w' = Inr (vs ! i))"
    by (auto simp: list_all2_conv_all_nth)
qed


lemma demo_nth_uuid: "nth_uuid demo_platform w n = ''u'' @ show_nat (uuid_pos w + n)"
  by (simp add: nth_uuid_def demo_fields)

lemma small_numbers:
  "show_nat 0 = ''0''" "show_nat 1 = ''1''" "show_nat 2 = ''2''" "show_nat (Suc 0) = ''1''"
  by code_simp+

lemma demo_contracts:
  "contracts_hold demo_platform demo_key 0 [demo_todo, demo_note]"
proof -
  have a: "cipher_roundtrip demo_platform demo_key (next_iv demo_platform empty_world)
        (JSON_stringify demo_platform demo_todo)"
    using demo_cipher_roundtrip [of empty_world demo_todo] demo_parse_docs(4)
    by (simp add: empty_world_def)
  have b: "cipher_roundtrip demo_platform demo_key (next_iv demo_platform stored_world)
        (JSON_stringify demo_platform demo_note)"
    using demo_cipher_roundtrip [of stored_world demo_note] demo_parse_docs(3)
    by (simp add: stored_world_def)
  from a b demo_serializable show ?thesis
    by (simp add: next_iv_eq empty_world_def stored_world_def)
qed

theorem omitted_key_unique_witness:
  "encryptionKey demo_storage = Some demo_key \<and>
   contracts_hold demo_platform demo_key (rand_pos taken_world) [demo_todo, demo_note] \<and>
   (\<exists>rs w'. set_each demo_platform demo_storage ''todos'' [demo_todo, demo_note] taken_world =
        Some (Inr rs, w') \<and>
      map key_of rs = [Some ''u1'', Some ''u2''] \<and> distinct (map key_of rs) \<and>
      get demo_platform demo_storage ''todos'' ''u1'' w' = Inr demo_todo \<and>
      get demo_platform demo_storage ''todos'' ''u2'' w' = Inr demo_note)"
proof -
  let ?w0 = "skip_uuids (Suc (Suc 0)) taken_world"
  obtain w1 where sw1: "set_write demo_platform demo_storage ''todos'' demo_todo ''u1'' ?w0 =
      (Inr (with_key demo_todo ''u1''), w1)"
    and u1: "uuid_pos w1 = uuid_pos ?w0"
    and l1: "localStorage w1 = AList.update (storage_key demo_storage ''todos'' ''u1'')
        (demo_stringify (demo_envelope (rand_pos ?w0) demo_todo)) (localStorage ?w0)"
    using demo_set_write_world [of "''todos''" demo_todo "''u1''" ?w0] by blast
  have taken: "exists_in demo_storage ''todos'' (nth_uuid demo_platform taken_world 0) taken_world"
    by (simp add: demo_nth_uuid small_numbers exists_in_def getItem_def demo_keys taken_world_def del: show_nat.simps)
  have free: "\<not> exists_in demo_storage ''todos'' (nth_uuid demo_platform taken_world (Suc 0)) taken_world"
    by (simp add: demo_nth_uuid small_numbers exists_in_def getItem_def demo_keys taken_world_def del: show_nat.simps)
  have n1: "nth_uuid demo_platform taken_world (Suc 0) = ''u1''"
    by (simp add: demo_nth_uuid small_numbers taken_world_def del: show_nat.simps)
  from set_value_omitted_at [of "Suc 0" demo_storage "''todos''" demo_platform taken_world demo_todo]
    taken free sw1
  have first: "set_value demo_platform demo_storage ''todos'' demo_todo None taken_world =
      Some (Inr (with_key demo_todo ''u1''), w1)"
    by (simp add: n1)
  from u1 have u1': "uuid_pos w1 = 2" by (simp add: taken_world_def)
  from l1 have l1': "localStorage w1 =
      [(''@edb_todos_u0'', ''old''), (''@edb_todos_u1'', demo_stringify (demo_envelope 0 demo_todo))]"
    by (simp add: demo_keys taken_world_def)
  obtain w2 where sw2: "set_write demo_platform demo_storage ''todos'' demo_note ''u2''
        (skip_uuids (Suc 0) w1) = (Inr (with_key demo_note ''u2''), w2)"
    using demo_set_write_world [of "''todos''" demo_note "''u2''" "skip_uuids (Suc 0) w1"] by blast
  have n2: "nth_uuid demo_platform w1 0 = ''u2''"
    by (simp add: demo_nth_uuid small_numbers u1' del: show_nat.simps)
  have free2: "\<not> exists_in demo_storage ''todos'' (nth_uuid demo_platform w1 0) w1"
    by (simp add: n2 exists_in_def getItem_def demo_keys l1')
  from set_value_omitted_at [of 0 demo_storage "''todos''" demo_platform w1 demo_note] free2 sw2
  have second: "set_value demo_platform demo_storage ''todos'' demo_note None w1 =
      Some (Inr (with_key demo_note ''u2''), w2)"
    by (simp add: n2)
  have run: "set_each demo_platform demo_storage ''todos'' [demo_todo, demo_note] taken_world =
      Some (Inr [with_key demo_todo ''u1'', with_key demo_note ''u2''], w2)"
    by (simp add: first second)
  have c: "contracts_hold demo_platform demo_key (rand_pos taken_world) [demo_todo, demo_note]"
    using demo_contracts by (simp add: taken_world_def)
  note inst = omitted_key_unique [OF demo_storage_fields(1) c run]
  from inst have d: "distinct (map key_of [with_key demo_todo ''u1'', with_key demo_note ''u2''])"
    by blast
  from inst have g: "\<forall>i<length [demo_todo, demo_note]. \<exists>k.
      key_of ([with_key demo_todo ''u1'', with_key demo_note ''u2''] ! i) = Some k \<and>
      get demo_platform demo_storage ''todos'' k w2 = Inr ([demo_todo, demo_note] ! i)"
    by blast
  from g [rule_format, of 0] have g0: "get demo_platform demo_storage ''todos'' ''u1'' w2 = Inr demo_todo"
    by simp
  from g [rule_format, of 1] have g1: "get demo_platform demo_storage ''todos'' ''u2'' w2 = Inr demo_note"
    by simp
  from run c d g0 g1 demo_storage_fields(1) show ?thesis by simp
qed

text \<open>
  Claim C3 as stated fails when the item under the generated key holds the empty
  string: the key collides with an existing entry, yet the call does not retry; it
  draws one UUID, returns it and overwrites the entry.
\<close>

theorem omitted_key_unique_counterexample:
  "getItem blank_uuid_world (storage_key demo_storage ''todos'' ''u0'') = Some [] \<and>
   blank_uuid_set \<noteq> None \<and> returned_key blank_uuid_set = Some ''u0'' \<and>
   uuid_pos (world_after blank_uuid_set) = 1"
proof -
  let ?w0 = "skip_uuids (Suc 0) blank_uuid_world"
  obtain w1 where sw1: "set_write demo_platform demo_storage ''todos'' demo_todo ''u0'' ?w0 =
      (Inr (with_key demo_todo ''u0''), w1)"
    and u1: "uuid_pos w1 = uuid_pos ?w0"
    using demo_set_write_world [of "''todos''" demo_todo "''u0''" ?w0] by blast
  have n0: "nth_uuid demo_platform blank_uuid_world 0 = ''u0''"
    by (simp add: demo_nth_uuid small_numbers blank_uuid_world_def del: show_nat.simps)
  have item: "getItem blank_uuid_world (storage_key demo_storage ''todos'' ''u0'') = Some []"
    by (simp add: getItem_def demo_keys blank_uuid_world_def)
  then have free: "\<not> exists_in demo_storage ''todos'' (nth_uuid demo_platform blank_uuid_world 0) blank_uuid_world"
    by (simp add: n0 exists_in_def)
  from set_value_omitted_at [of 0 demo_storage "''todos''" demo_platform blank_uuid_world demo_todo]
    free sw1
  have run: "blank_uuid_set = Some (Inr (with_key demo_todo ''u0''), w1)"
    by (simp add: n0 blank_uuid_set_def)
  from u1 have "uuid_pos w1 = 1" by (simp add: blank_uuid_world_def)
  with item show ?thesis
    by (simp add: run returned_key_def world_after_def)
qed

end
